theory Spec2Isabelle
  imports Main "HOL-Library.Word" "HOL-Library.AList"
begin

section \<open>The policy manager of the agreement bot (agreementbot/policy\_manager.go)\<close>

text \<open>
  The embedding follows the Go source function by function.
  \<^item> A Go map is an association list; \<open>map_of\<close> is the lookup, \<open>AList.update\<close>,
    \<open>AList.delete\<close> and \<open>AList.map_entry\<close> are the writes, and a \<open>range\<close> loop walks the
    list from left to right. Go fixes no iteration order, so the order of the list stands
    for the order that one run happens to use, and the theorems are about every list. A
    theorem that needs the keys of a map to be distinct says so.
  \<^item> A pointer to an entry that may be \<open>nil\<close> is an \<open>option\<close>.
  \<^item> Every function that returns a Go \<open>error\<close> returns an \<open>error option\<close> (or a sum)
    next to the state it leaves behind, because the mutations made before an error stay.
  \<^item> \<open>pm.eventChannel <- m\<close> appends \<open>m\<close> to the list of messages sent so far.
  \<^item> The locks are not modelled: every operation below is one critical section.
  \<^item> The functions of other packages that the file calls (\<open>json.Marshal\<close>, \<open>sha3.Sum256\<close>,
    \<open>Validate\<close>, \<open>GenPolicyFromBusinessPolicy\<close>, \<open>policy.MarshalPolicy\<close>, \<open>exchange.GetId\<close>,
    \<open>GetBusinessPolicy\<close>, the field \<open>Header.Name\<close>) are parameters, collected in the record
    \<open>env\<close>. \<open>time.Now().Unix()\<close> is the parameter \<open>now\<close>; in \<open>UpdatePolicies\<close>, which reads
    the clock at most once for each definition, \<open>now polId\<close> is the reading taken while the
    definition with the id \<open>polId\<close> is handled.
  \<^item> \<open>hashPolicy\<close> takes an \<open>interface{}\<close> and is called at two types, a business policy
    and the external policy of a service. \<open>json.Marshal\<close> at an external policy and
    \<open>policy.GenPolicyFromExternalPolicy\<close> are the parameters of the record \<open>external_env\<close>,
    and \<open>hashExternalPolicy\<close> is \<open>hashPolicy\<close> at an external policy.
  \<^item> The \<open>String\<close> methods take no part in the properties below and are left out.
\<close>

subsection \<open>Data\<close>

type_synonym byte = "8 word"

datatype error =
    MarshalError                          \<comment> \<open>hashPolicy: unable to marshal policy\<close>
  | ValidateError                         \<comment> \<open>Failed to validate the business policy\<close>
  | ConvertError                          \<comment> \<open>Failed to convert the business policy to internal policy format\<close>
  | OrgNotFound string                    \<comment> \<open>org not found in policy manager\<close>
  | HashError string error                \<comment> \<open>unable to hash the business policy for org\<close>
  | UpdateEntryError string string error  \<comment> \<open>error updating business policy entry for polId of org\<close>
  | NewEntryError error                   \<comment> \<open>unable to create business policy entry\<close>

text \<open>\<open>ServicePolicyEntry\<close>; \<open>BusinessPolicyEntry\<close> has the same three fields and the
  map of service policies in addition.\<close>

record 'p ServicePolicyEntry =
  Policy :: 'p
  Updated :: "64 word"
  Hash :: "byte list"

record 'p BusinessPolicyEntry = "'p ServicePolicyEntry" +
  ServicePolicies :: "(string \<times> 'p ServicePolicyEntry) list"

text \<open>\<open>exchange.ServedBusinessPolicy\<close>: the three fields the policy manager reads.\<close>

record ServedBusinessPolicy =
  BusinessPolOrg :: string
  BusinessPol :: string
  NodeOrg :: string

text \<open>The two messages sent on the event channel. The arguments are the ones of
  \<open>events.NewPolicyChangedMessage\<close> and \<open>events.NewPolicyDeletedMessage\<close> after the event
  id: the policy file name (always empty here), the policy name, the org and the
  serialized policy.\<close>

datatype message =
    PolicyChangedMessage string string string string
  | PolicyDeletedMessage string string string string

record ('xp, 'bp, 'p) env =
  GetBusinessPolicy :: "'xp \<Rightarrow> 'bp"
  jsonMarshal :: "'bp \<Rightarrow> byte list option"
  sha3Sum256 :: "byte list \<Rightarrow> byte list"
  Validate :: "'bp \<Rightarrow> bool"
  GenPolicyFromBusinessPolicy :: "'bp \<Rightarrow> string \<Rightarrow> 'p option"
  MarshalPolicy :: "'p \<Rightarrow> string option"
  HeaderName :: "'p \<Rightarrow> string"
  GetId :: "string \<Rightarrow> string"


record 'p PolicyManager =
  eventChannel :: "message list"
  ServedPolicies :: "(string \<times> ServedBusinessPolicy) list"
  OrgPolicies :: "(string \<times> (string \<times> 'p BusinessPolicyEntry option) list) list"

subsection \<open>Policy entries\<close>

definition hashPolicy :: "('xp, 'bp, 'p) env \<Rightarrow> 'bp \<Rightarrow> error + byte list" where
  "hashPolicy env p =
     (case jsonMarshal env p of
        None \<Rightarrow> Inl MarshalError
      | Some ps \<Rightarrow> Inr (sha3Sum256 env ps))"

definition NewBusinessPolicyEntry ::
  "('xp, 'bp, 'p) env \<Rightarrow> 64 word \<Rightarrow> 'bp \<Rightarrow> string \<Rightarrow> error + 'p BusinessPolicyEntry" where
  "NewBusinessPolicyEntry env now pol polId =
     (case hashPolicy env pol of
        Inl err \<Rightarrow> Inl err
      | Inr hash \<Rightarrow>
          if \<not> Validate env pol then Inl ValidateError
          else (case GenPolicyFromBusinessPolicy env pol polId of
                  None \<Rightarrow> Inl ConvertError
                | Some pPolicy \<Rightarrow>
                    Inr \<lparr>Policy = pPolicy, Updated = now, Hash = hash, ServicePolicies = []\<rparr>))"





text \<open>\<open>UpdateEntry\<close> writes through the receiver before it validates, so the model
  returns the entry as it is left together with the result.\<close>

definition UpdateEntry ::
  "('xp, 'bp, 'p) env \<Rightarrow> 64 word \<Rightarrow> 'p BusinessPolicyEntry \<Rightarrow> 'bp \<Rightarrow> string \<Rightarrow> byte list
     \<Rightarrow> 'p BusinessPolicyEntry \<times> (error + 'p)" where
  "UpdateEntry env now p pol polId newHash =
     (let p1 = p\<lparr>Hash := newHash, Updated := now, ServicePolicies := []\<rparr>
      in if \<not> Validate env pol then (p1, Inl ValidateError)
         else (case GenPolicyFromBusinessPolicy env pol polId of
                 None \<Rightarrow> (p1, Inl ConvertError)
               | Some pPolicy \<Rightarrow> (p1\<lparr>Policy := pPolicy\<rparr>, Inr pPolicy)))"

subsection \<open>The policy manager: queries\<close>


definition hasOrg :: "'p PolicyManager \<Rightarrow> string \<Rightarrow> bool" where
  "hasOrg pm org = (case map_of (OrgPolicies pm) org of None \<Rightarrow> False | Some orgMap \<Rightarrow> True)"

definition hasBusinessPolicy :: "'p PolicyManager \<Rightarrow> string \<Rightarrow> string \<Rightarrow> bool" where
  "hasBusinessPolicy pm org polName =
     (if hasOrg pm org then
        (case map_of (OrgPolicies pm) org of
           None \<Rightarrow> False
         | Some orgMap \<Rightarrow> (case map_of orgMap polName of None \<Rightarrow> False | Some pe \<Rightarrow> True))
      else False)"

definition GetAllPolicyOrgs :: "'p PolicyManager \<Rightarrow> string list" where
  "GetAllPolicyOrgs pm = map fst (OrgPolicies pm)"

definition setServedBusinessPolicies ::
  "(string \<times> ServedBusinessPolicy) list \<Rightarrow> 'p PolicyManager \<Rightarrow> 'p PolicyManager" where
  "setServedBusinessPolicies servedPols pm = pm\<lparr>ServedPolicies := servedPols\<rparr>"

definition servesPolicy :: "ServedBusinessPolicy \<Rightarrow> string \<Rightarrow> string \<Rightarrow> bool" where
  \<comment> \<open>the condition that \<open>serveBusinessPolicy\<close> and \<open>GetServedNodeOrgs\<close> test on a triplet\<close>
  "servesPolicy sp polOrg polName =
     (BusinessPolOrg sp = polOrg \<and> (BusinessPol sp = polName \<or> BusinessPol sp = ''*''))"

primrec serveBusinessPolicy_loop :: "ServedBusinessPolicy list \<Rightarrow> string \<Rightarrow> string \<Rightarrow> bool" where
  "serveBusinessPolicy_loop [] polOrg polName = False"
| "serveBusinessPolicy_loop (sp # rest) polOrg polName =
     (if servesPolicy sp polOrg polName then True
      else serveBusinessPolicy_loop rest polOrg polName)"

definition serveBusinessPolicy :: "'p PolicyManager \<Rightarrow> string \<Rightarrow> string \<Rightarrow> bool" where
  "serveBusinessPolicy pm polOrg polName =
     serveBusinessPolicy_loop (map snd (ServedPolicies pm)) polOrg polName"

primrec serveOrg_loop :: "ServedBusinessPolicy list \<Rightarrow> string \<Rightarrow> bool" where
  "serveOrg_loop [] polOrg = False"
| "serveOrg_loop (sp # rest) polOrg =
     (if BusinessPolOrg sp = polOrg then True else serveOrg_loop rest polOrg)"

definition serveOrg :: "'p PolicyManager \<Rightarrow> string \<Rightarrow> bool" where
  "serveOrg pm polOrg = serveOrg_loop (map snd (ServedPolicies pm)) polOrg"

primrec GetServedNodeOrgs_loop ::
  "ServedBusinessPolicy list \<Rightarrow> string \<Rightarrow> string \<Rightarrow> string list \<Rightarrow> string list" where
  "GetServedNodeOrgs_loop [] polOrg polName node_orgs = node_orgs"
| "GetServedNodeOrgs_loop (sp # rest) polOrg polName node_orgs =
     (if servesPolicy sp polOrg polName then
        (let node_org = (if NodeOrg sp = [] then BusinessPolOrg sp else NodeOrg sp)
         in GetServedNodeOrgs_loop rest polOrg polName (node_orgs @ [node_org]))
      else GetServedNodeOrgs_loop rest polOrg polName node_orgs)"

definition GetServedNodeOrgs :: "'p PolicyManager \<Rightarrow> string \<Rightarrow> string \<Rightarrow> string list" where
  "GetServedNodeOrgs pm polOrg polName =
     GetServedNodeOrgs_loop (map snd (ServedPolicies pm)) polOrg polName []"

subsection \<open>The policy manager: deletions\<close>

text \<open>\<open>deleteOrg\<close> and \<open>deleteBusinessPolicy\<close> contain the same block: for an entry that
  is not \<open>nil\<close>, serialize its policy and send the deleted message, or log the error
  and send nothing.\<close>

definition sendPolicyDeleted ::
  "('xp, 'bp, 'p) env \<Rightarrow> string \<Rightarrow> 'p BusinessPolicyEntry option \<Rightarrow> 'p PolicyManager
     \<Rightarrow> 'p PolicyManager" where
  "sendPolicyDeleted env org pe pm =
     (case pe of
        None \<Rightarrow> pm
      | Some e \<Rightarrow>
          (case MarshalPolicy env (Policy e) of
             None \<Rightarrow> pm
           | Some policyString \<Rightarrow>
               pm\<lparr>eventChannel := eventChannel pm @
                    [PolicyDeletedMessage [] (HeaderName env (Policy e)) org policyString]\<rparr>))"

primrec deleteOrg_policies ::
  "('xp, 'bp, 'p) env \<Rightarrow> string \<Rightarrow> (string \<times> 'p BusinessPolicyEntry option) list
     \<Rightarrow> 'p PolicyManager \<Rightarrow> 'p PolicyManager" where
  "deleteOrg_policies env org [] pm = pm"
| "deleteOrg_policies env org (entry # rest) pm =
     deleteOrg_policies env org rest (sendPolicyDeleted env org (snd entry) pm)"

primrec deleteOrg_find ::
  "('xp, 'bp, 'p) env \<Rightarrow> string
     \<Rightarrow> (string \<times> (string \<times> 'p BusinessPolicyEntry option) list) list
     \<Rightarrow> 'p PolicyManager \<Rightarrow> 'p PolicyManager" where
  "deleteOrg_find env org_in [] pm = pm"
| "deleteOrg_find env org_in (entry # rest) pm =
     (if fst entry = org_in then deleteOrg_policies env (fst entry) (snd entry) pm
      else deleteOrg_find env org_in rest pm)"

definition deleteOrg ::
  "('xp, 'bp, 'p) env \<Rightarrow> string \<Rightarrow> 'p PolicyManager \<Rightarrow> error option \<times> 'p PolicyManager" where
  "deleteOrg env org_in pm =
     (let pm1 = deleteOrg_find env org_in (OrgPolicies pm) pm;
          pm2 = (if hasOrg pm1 org_in
                 then pm1\<lparr>OrgPolicies := AList.delete org_in (OrgPolicies pm1)\<rparr>
                 else pm1)
      in (None, pm2))"

definition deleteBusinessPolicy ::
  "('xp, 'bp, 'p) env \<Rightarrow> string \<Rightarrow> string \<Rightarrow> 'p PolicyManager
     \<Rightarrow> error option \<times> 'p PolicyManager" where
  "deleteBusinessPolicy env org polName pm =
     (if hasOrg pm org then
        (case map_of (OrgPolicies pm) org of
           None \<Rightarrow> (None, pm)
         | Some orgMap \<Rightarrow>
             (case map_of orgMap polName of
                None \<Rightarrow> (None, pm)
              | Some pe \<Rightarrow>
                  (let pm1 = sendPolicyDeleted env org pe pm
                   in (None, pm1\<lparr>OrgPolicies :=
                         AList.map_entry org (AList.delete polName) (OrgPolicies pm1)\<rparr>))))
      else (None, pm))"

subsection \<open>SetCurrentBusinessPolicies\<close>

text \<open>The two loops of \<open>SetCurrentBusinessPolicies\<close>: the first walks the new triplets and
  makes an empty policy map for every org that is not tracked yet, the second walks the
  tracked orgs and deletes every org that no triplet serves any more.\<close>

primrec SetCurrentBusinessPolicies_add ::
  "ServedBusinessPolicy list \<Rightarrow> 'p PolicyManager \<Rightarrow> 'p PolicyManager" where
  "SetCurrentBusinessPolicies_add [] pm = pm"
| "SetCurrentBusinessPolicies_add (served # rest) pm =
     SetCurrentBusinessPolicies_add rest
       (if \<not> hasOrg pm (BusinessPolOrg served)
        then pm\<lparr>OrgPolicies := AList.update (BusinessPolOrg served) [] (OrgPolicies pm)\<rparr>
        else pm)"

primrec SetCurrentBusinessPolicies_prune ::
  "('xp, 'bp, 'p) env \<Rightarrow> string list \<Rightarrow> 'p PolicyManager \<Rightarrow> error option \<times> 'p PolicyManager" where
  "SetCurrentBusinessPolicies_prune env [] pm = (None, pm)"
| "SetCurrentBusinessPolicies_prune env (org # rest) pm =
     (if \<not> serveOrg pm org then
        (case deleteOrg env org pm of
           (Some err, pm') \<Rightarrow> (Some err, pm')
         | (None, pm') \<Rightarrow> SetCurrentBusinessPolicies_prune env rest pm')
      else SetCurrentBusinessPolicies_prune env rest pm)"

definition SetCurrentBusinessPolicies ::
  "('xp, 'bp, 'p) env \<Rightarrow> (string \<times> ServedBusinessPolicy) list \<Rightarrow> 'p PolicyManager
     \<Rightarrow> error option \<times> 'p PolicyManager" where
  "SetCurrentBusinessPolicies env servedPols pm =
     (if ServedPolicies pm = [] \<and> servedPols = [] then (None, pm)
      else
        (let pm1 = setServedBusinessPolicies servedPols pm;
             pm2 = (if OrgPolicies pm1 = [] then pm1\<lparr>OrgPolicies := []\<rparr> else pm1);
             pm3 = SetCurrentBusinessPolicies_add (map snd servedPols) pm2
         in SetCurrentBusinessPolicies_prune env (map fst (OrgPolicies pm3)) pm3))"

subsection \<open>UpdatePolicies\<close>

text \<open>The first loop of \<open>UpdatePolicies\<close> walks the policies cached for the org and deletes
  those that are no longer served or no longer defined; \<open>need_delete\<close> is the flag of that
  name, computed for one cached policy.\<close>

primrec need_delete_loop :: "('xp, 'bp, 'p) env \<Rightarrow> string list \<Rightarrow> string \<Rightarrow> bool" where
  "need_delete_loop env [] polName = True"
| "need_delete_loop env (polId # rest) polName =
     (if GetId env polId = polName then False else need_delete_loop env rest polName)"

definition need_delete ::
  "('xp, 'bp, 'p) env \<Rightarrow> 'p PolicyManager \<Rightarrow> string \<Rightarrow> (string \<times> 'xp) list \<Rightarrow> string \<Rightarrow> bool" where
  "need_delete env pm org definedPolicies polName =
     (if serveBusinessPolicy pm org polName
      then need_delete_loop env (map fst definedPolicies) polName
      else True)"

primrec UpdatePolicies_prune ::
  "('xp, 'bp, 'p) env \<Rightarrow> string \<Rightarrow> (string \<times> 'xp) list \<Rightarrow> string list \<Rightarrow> 'p PolicyManager
     \<Rightarrow> error option \<times> 'p PolicyManager" where
  "UpdatePolicies_prune env org definedPolicies [] pm = (None, pm)"
| "UpdatePolicies_prune env org definedPolicies (polName # rest) pm =
     (if need_delete env pm org definedPolicies polName then
        (case deleteBusinessPolicy env org polName pm of
           (Some err, pm') \<Rightarrow> (Some err, pm')
         | (None, pm') \<Rightarrow> UpdatePolicies_prune env org definedPolicies rest pm')
      else UpdatePolicies_prune env org definedPolicies rest pm)"

definition setEntry ::
  "string \<Rightarrow> string \<Rightarrow> 'p BusinessPolicyEntry \<Rightarrow> 'p PolicyManager \<Rightarrow> 'p PolicyManager" where
  \<comment> \<open>\<open>pm.OrgPolicies[org][name] = pe\<close>, and the write through the pointer \<open>pe\<close> that the
      map holds under \<open>name\<close>\<close>
  "setEntry org name pe pm =
     pm\<lparr>OrgPolicies := AList.map_entry org (AList.update name (Some pe)) (OrgPolicies pm)\<rparr>"

definition getEntry :: "'p PolicyManager \<Rightarrow> string \<Rightarrow> string \<Rightarrow> 'p BusinessPolicyEntry option" where
  \<comment> \<open>\<open>pm.OrgPolicies[org][name]\<close>: \<open>None\<close> when the key is missing or the pointer is \<open>nil\<close>\<close>
  "getEntry pm org name =
     (case map_of (OrgPolicies pm) org of
        None \<Rightarrow> None
      | Some orgMap \<Rightarrow> (case map_of orgMap name of None \<Rightarrow> None | Some pe \<Rightarrow> pe))"

text \<open>The body of the second loop of \<open>UpdatePolicies\<close>, for one pair of the map.\<close>

definition UpdatePolicies_one ::
  "('xp, 'bp, 'p) env \<Rightarrow> (string \<Rightarrow> 64 word) \<Rightarrow> string \<Rightarrow> string \<Rightarrow> 'xp \<Rightarrow> 'p PolicyManager
     \<Rightarrow> error option \<times> 'p PolicyManager" where
  "UpdatePolicies_one env now org polId exPol pm =
     (let pol = GetBusinessPolicy env exPol in
      if \<not> serveBusinessPolicy pm org (GetId env polId) then (None, pm)
      else
        (case (if hasBusinessPolicy pm org (GetId env polId)
               then getEntry pm org (GetId env polId) else None) of
           Some pe \<Rightarrow>
             (case hashPolicy env pol of
                Inl err \<Rightarrow> (Some (HashError org err), pm)
              | Inr newHash \<Rightarrow>
                  if Hash pe \<noteq> newHash then
                    (case UpdateEntry env (now polId) pe pol polId newHash of
                       (pe', Inl err) \<Rightarrow>
                         (Some (UpdateEntryError polId org err),
                          setEntry org (GetId env polId) pe' pm)
                     | (pe', Inr newPol) \<Rightarrow>
                         (let pm1 = setEntry org (GetId env polId) pe' pm in
                          case MarshalPolicy env newPol of
                            None \<Rightarrow> (None, pm1)
                          | Some policyString \<Rightarrow>
                              (None, pm1\<lparr>eventChannel := eventChannel pm1 @
                                 [PolicyChangedMessage [] (HeaderName env newPol) org
                                    policyString]\<rparr>)))
                  else (None, pm))
         | None \<Rightarrow>
             (case NewBusinessPolicyEntry env (now polId) pol polId of
                Inl err \<Rightarrow> (Some (NewEntryError err), pm)
              | Inr newPE \<Rightarrow> (None, setEntry org (GetId env polId) newPE pm))))"

primrec UpdatePolicies_add ::
  "('xp, 'bp, 'p) env \<Rightarrow> (string \<Rightarrow> 64 word) \<Rightarrow> string \<Rightarrow> (string \<times> 'xp) list
     \<Rightarrow> 'p PolicyManager \<Rightarrow> error option \<times> 'p PolicyManager" where
  "UpdatePolicies_add env now org [] pm = (None, pm)"
| "UpdatePolicies_add env now org (def # rest) pm =
     (case UpdatePolicies_one env now org (fst def) (snd def) pm of
        (Some err, pm') \<Rightarrow> (Some err, pm')
      | (None, pm') \<Rightarrow> UpdatePolicies_add env now org rest pm')"

definition UpdatePolicies ::
  "('xp, 'bp, 'p) env \<Rightarrow> (string \<Rightarrow> 64 word) \<Rightarrow> string \<Rightarrow> (string \<times> 'xp) list
     \<Rightarrow> 'p PolicyManager \<Rightarrow> error option \<times> 'p PolicyManager" where
  "UpdatePolicies env now org definedPolicies pm =
     (if \<not> hasOrg pm org then (Some (OrgNotFound org), pm)
      else if definedPolicies = [] then deleteOrg env org pm
      else
        (case UpdatePolicies_prune env org definedPolicies
                (case map_of (OrgPolicies pm) org of None \<Rightarrow> [] | Some orgMap \<Rightarrow> map fst orgMap)
                pm of
           (Some err, pm') \<Rightarrow> (Some err, pm')
         | (None, pm') \<Rightarrow> UpdatePolicies_add env now org definedPolicies pm'))"

subsection \<open>The org-policy map as Go holds it: maps are references\<close>

text \<open>A Go map value is a reference to a map object. Where a claim depends on who shares
  a map object, the policy maps live in a store: \<open>orgRefs\<close> is \<open>pm.OrgPolicies\<close>, holding for
  every org the reference of its policy map, and \<open>mapAt\<close> gives the content of each map
  object. \<open>deref\<close> reads the store and gives the policy manager of the sections above.
  \<open>GetAllBusinessPolicyEntriesForOrg\<close> returns \<open>pm.OrgPolicies[org]\<close>, a reference, or
  \<open>nil\<close> (\<open>None\<close>); \<open>deleteBusinessPolicy_refs\<close> is \<open>deleteBusinessPolicy\<close> on the store, where
  \<open>delete(pm.OrgPolicies[org], polName)\<close> changes the map object in place.\<close>

type_synonym mapRef = nat

record 'p PolicyManagerRefs =
  events :: "message list"
  served :: "(string \<times> ServedBusinessPolicy) list"
  orgRefs :: "(string \<times> mapRef) list"
  mapAt :: "mapRef \<Rightarrow> (string \<times> 'p BusinessPolicyEntry option) list"

definition deref :: "'p PolicyManagerRefs \<Rightarrow> 'p PolicyManager" where
  "deref rpm =
     \<lparr>eventChannel = events rpm,
      ServedPolicies = served rpm,
      OrgPolicies = map (\<lambda>entry. (fst entry, mapAt rpm (snd entry))) (orgRefs rpm)\<rparr>"

definition GetAllBusinessPolicyEntriesForOrg :: "'p PolicyManagerRefs \<Rightarrow> string \<Rightarrow> mapRef option" where
  "GetAllBusinessPolicyEntriesForOrg rpm org =
     (if hasOrg (deref rpm) org then map_of (orgRefs rpm) org else None)"

definition deleteBusinessPolicy_refs ::
  "('xp, 'bp, 'p) env \<Rightarrow> string \<Rightarrow> string \<Rightarrow> 'p PolicyManagerRefs
     \<Rightarrow> error option \<times> 'p PolicyManagerRefs" where
  "deleteBusinessPolicy_refs env org polName rpm =
     (if hasOrg (deref rpm) org then
        (case map_of (orgRefs rpm) org of
           None \<Rightarrow> (None, rpm)
         | Some ref \<Rightarrow>
             (case map_of (mapAt rpm ref) polName of
                None \<Rightarrow> (None, rpm)
              | Some pe \<Rightarrow>
                  (let rpm1 =
                     (case pe of
                        None \<Rightarrow> rpm
                      | Some e \<Rightarrow>
                          (case MarshalPolicy env (Policy e) of
                             None \<Rightarrow> rpm
                           | Some policyString \<Rightarrow>
                               rpm\<lparr>events := events rpm @
                                 [PolicyDeletedMessage [] (HeaderName env (Policy e)) org
                                    policyString]\<rparr>))
                   in (None, rpm1\<lparr>mapAt :=
                         (mapAt rpm1)(ref := AList.delete polName (mapAt rpm1 ref))\<rparr>))))
      else (None, rpm))"

subsection \<open>The vocabulary of the properties\<close>

text \<open>The messages that deleting one entry, and a whole map of entries, is expected to
  send: one \<open>PolicyDeletedMessage\<close> for every entry that is not \<open>nil\<close> and whose policy
  serializes, in the order of the map.\<close>

definition deletedMessage ::
  "('xp, 'bp, 'p) env \<Rightarrow> string \<Rightarrow> 'p BusinessPolicyEntry option \<Rightarrow> message list" where
  "deletedMessage env org pe =
     (case pe of
        None \<Rightarrow> []
      | Some e \<Rightarrow>
          (case MarshalPolicy env (Policy e) of
             None \<Rightarrow> []
           | Some policyString \<Rightarrow>
               [PolicyDeletedMessage [] (HeaderName env (Policy e)) org policyString]))"

definition deletedMessages ::
  "('xp, 'bp, 'p) env \<Rightarrow> string \<Rightarrow> (string \<times> 'p BusinessPolicyEntry option) list
     \<Rightarrow> message list" where
  "deletedMessages env org entries =
     concat (map (\<lambda>entry. deletedMessage env org (snd entry)) entries)"

definition orgMessages :: "('xp, 'bp, 'p) env \<Rightarrow> 'p PolicyManager \<Rightarrow> string \<Rightarrow> message list" where
  "orgMessages env pm org =
     (case map_of (OrgPolicies pm) org of
        None \<Rightarrow> []
      | Some orgMap \<Rightarrow> deletedMessages env org orgMap)"

definition messageOrg :: "message \<Rightarrow> string" where
  "messageOrg m =
     (case m of
        PolicyChangedMessage file name org policyString \<Rightarrow> org
      | PolicyDeletedMessage file name org policyString \<Rightarrow> org)"

definition servedOrgs :: "(string \<times> ServedBusinessPolicy) list \<Rightarrow> string set" where
  "servedOrgs servedPols = BusinessPolOrg ` snd ` set servedPols"

text \<open>The events a call has sent: what the channel holds after it, without what it held
  before.\<close>

definition emitted :: "'p PolicyManager \<Rightarrow> 'p PolicyManager \<Rightarrow> message list" where
  "emitted pm pm' = drop (length (eventChannel pm)) (eventChannel pm')"

definition entryMessages ::
  "('xp, 'bp, 'p) env \<Rightarrow> 'p PolicyManager \<Rightarrow> string \<Rightarrow> string \<Rightarrow> message list" where
  "entryMessages env pm org polName =
     (case map_of (OrgPolicies pm) org of
        None \<Rightarrow> []
      | Some orgMap \<Rightarrow>
          (case map_of orgMap polName of None \<Rightarrow> [] | Some pe \<Rightarrow> deletedMessage env org pe))"

subsection \<open>The states a run can reach\<close>




subsection \<open>The definitions ingested for an entry\<close>













subsection \<open>An example environment\<close>

text \<open>Policy definitions are byte strings that serialize to themselves unless empty, the
  digest is the identity, a definition is invalid when its first byte is 0 and cannot be
  converted when it is 1, the internal policy is the policy name, and an id
  \<open>org/name\<close> resolves to \<open>name\<close>.\<close>

definition GetId_ex :: "string \<Rightarrow> string" where
  "GetId_ex polId =
     (case dropWhile (\<lambda>c. c \<noteq> CHR ''/'') polId of [] \<Rightarrow> polId | c # name \<Rightarrow> name)"

definition env_ex :: "(byte list, byte list, string) env" where
  "env_ex =
     \<lparr>GetBusinessPolicy = (\<lambda>exPol. exPol),
      jsonMarshal = (\<lambda>pol. if pol = [] then None else Some pol),
      sha3Sum256 = (\<lambda>ps. ps),
      Validate = (\<lambda>pol. hd pol \<noteq> 0),
      GenPolicyFromBusinessPolicy = (\<lambda>pol polId. if hd pol = 1 then None else Some (GetId_ex polId)),
      MarshalPolicy = (\<lambda>p. if p = ''unserializable'' then None else Some (''json '' @ p)),
      HeaderName = (\<lambda>p. p),
      GetId = GetId_ex\<rparr>"

definition now_ex :: "string \<Rightarrow> 64 word" where
  "now_ex polId = 1600000000"

definition served_ex :: "(string \<times> ServedBusinessPolicy) list" where
  "served_ex =
     [(''orgA_polA_nodeOrgA'',
       \<lparr>BusinessPolOrg = ''orgA'', BusinessPol = ''polA'', NodeOrg = ''nodeOrgA''\<rparr>),
      (''orgB_*_orgB'',
       \<lparr>BusinessPolOrg = ''orgB'', BusinessPol = ''*'', NodeOrg = []\<rparr>)]"

definition entry_ex :: "string \<Rightarrow> byte list \<Rightarrow> string BusinessPolicyEntry" where
  "entry_ex name hash = \<lparr>Policy = name, Updated = 1500000000, Hash = hash, ServicePolicies = []\<rparr>"

definition pm_ex :: "string PolicyManager" where
  "pm_ex =
     \<lparr>eventChannel = [],
      ServedPolicies = served_ex,
      OrgPolicies =
        [(''orgA'', [(''polA'', Some (entry_ex ''polA'' [2, 1]))]),
         (''orgB'', [(''polB'', Some (entry_ex ''polB'' [3])),
                     (''polC'', Some (entry_ex ''polC'' [4]))])]\<rparr>"

definition served1_ex :: "(string \<times> ServedBusinessPolicy) list" where
  "served1_ex =
     [(''orgA_polA_nodeOrgA'',
       \<lparr>BusinessPolOrg = ''orgA'', BusinessPol = ''polA'', NodeOrg = ''nodeOrgA''\<rparr>)]"

definition served2_ex :: "(string \<times> ServedBusinessPolicy) list" where
  "served2_ex =
     [(''orgB_polB_orgB'',
       \<lparr>BusinessPolOrg = ''orgB'', BusinessPol = ''polB'', NodeOrg = []\<rparr>),
      (''orgC_*_orgC'',
       \<lparr>BusinessPolOrg = ''orgC'', BusinessPol = ''*'', NodeOrg = []\<rparr>)]"

definition pm_served_ex :: "string PolicyManager" where
  "pm_served_ex =
     \<lparr>eventChannel = [], ServedPolicies = served_ex,
      OrgPolicies = [(''orgA'', []), (''orgB'', [])]\<rparr>"

definition pm_unserializable_ex :: "string PolicyManager" where
  "pm_unserializable_ex =
     \<lparr>eventChannel = [],
      ServedPolicies = served_ex,
      OrgPolicies =
        [(''orgA'', []),
         (''orgB'', [(''unserializable'', Some (entry_ex ''unserializable'' [5]))])]\<rparr>"

definition pm_polB_ex :: "string PolicyManager" where
  "pm_polB_ex =
     \<lparr>eventChannel = [], ServedPolicies = served_ex,
      OrgPolicies =
        [(''orgA'', []),
         (''orgB'', [(''polB'', Some \<lparr>Policy = ''polB'', Updated = 1600000000, Hash = [3],
                                      ServicePolicies = []\<rparr>)])]\<rparr>"

definition rpm_ex :: "string PolicyManagerRefs" where
  "rpm_ex =
     \<lparr>events = [], served = served_ex,
      orgRefs = [(''orgA'', 10), (''orgB'', 11)],
      mapAt = (\<lambda>ref. if ref = 10 then [(''polA'', Some (entry_ex ''polA'' [2, 1]))]
                     else if ref = 11 then [(''polB'', Some (entry_ex ''polB'' [3])),
                                           (''polC'', Some (entry_ex ''polC'' [4]))]
                     else [])\<rparr>"


definition pm_pruned_ex :: "string PolicyManager" where
  "pm_pruned_ex =
     \<lparr>eventChannel = [PolicyDeletedMessage [] ''polB'' ''orgB'' ''json polB''],
      ServedPolicies = served_ex,
      OrgPolicies =
        [(''orgA'', [(''polA'', Some (entry_ex ''polA'' [2, 1]))]),
         (''orgB'', [(''polC'', Some (entry_ex ''polC'' [4]))])]\<rparr>"

definition pm_polD_ex :: "string PolicyManager" where
  "pm_polD_ex =
     \<lparr>eventChannel = [PolicyDeletedMessage [] ''polB'' ''orgB'' ''json polB''],
      ServedPolicies = served_ex,
      OrgPolicies =
        [(''orgA'', [(''polA'', Some (entry_ex ''polA'' [2, 1]))]),
         (''orgB'', [(''polC'', Some (entry_ex ''polC'' [4])),
                     (''polD'', Some \<lparr>Policy = ''polD'', Updated = 1600000000, Hash = [6],
                                      ServicePolicies = []\<rparr>)])]\<rparr>"

definition pm_changed_ex :: "string PolicyManager" where
  "pm_changed_ex =
     \<lparr>eventChannel = [PolicyDeletedMessage [] ''polB'' ''orgB'' ''json polB'',
                      PolicyChangedMessage [] ''polC'' ''orgB'' ''json polC''],
      ServedPolicies = served_ex,
      OrgPolicies =
        [(''orgA'', [(''polA'', Some (entry_ex ''polA'' [2, 1]))]),
         (''orgB'', [(''polC'', Some \<lparr>Policy = ''polC'', Updated = 1600000000, Hash = [4, 4],
                                      ServicePolicies = []\<rparr>),
                     (''polD'', Some \<lparr>Policy = ''polD'', Updated = 1600000000, Hash = [6],
                                      ServicePolicies = []\<rparr>)])]\<rparr>"


definition env_checksum_ex :: "(byte list, byte list, string) env" where
  "env_checksum_ex = env_ex\<lparr>sha3Sum256 := (\<lambda>ps. replicate 31 0 @ [sum_list ps])\<rparr>"







section \<open>Properties\<close>

subsection \<open>Queries\<close>

lemma hasOrg_iff: "hasOrg pm org \<longleftrightarrow> org \<in> fst ` set (OrgPolicies pm)"
  by (simp add: hasOrg_def dom_map_of_conv_image_fst[symmetric] domIff split: option.splits)

lemma serveOrg_loop_iff: "serveOrg_loop sps org \<longleftrightarrow> org \<in> BusinessPolOrg ` set sps"
  by (induction sps) auto

lemma serveOrg_iff: "serveOrg pm org \<longleftrightarrow> org \<in> servedOrgs (ServedPolicies pm)"
  by (simp add: serveOrg_def serveOrg_loop_iff image_image servedOrgs_def)

lemma serveOrg_cong: "ServedPolicies pm' = ServedPolicies pm \<Longrightarrow> serveOrg pm' = serveOrg pm"
  by (simp add: serveOrg_def fun_eq_iff)

lemma GetServedNodeOrgs_loop_eq:
  "GetServedNodeOrgs_loop sps polOrg polName node_orgs =
     node_orgs @ map (\<lambda>sp. if NodeOrg sp = [] then polOrg else NodeOrg sp)
                   (filter (\<lambda>sp. BusinessPolOrg sp = polOrg \<and>
                                 (BusinessPol sp = polName \<or> BusinessPol sp = ''*'')) sps)"
  by (induction sps arbitrary: node_orgs) (auto simp: servesPolicy_def Let_def)

text \<open>
  C8. For every org and policy name, \<open>GetServedNodeOrgs\<close> returns the node orgs of exactly
  the served triplets whose policy org is the given org and whose policy name is the given
  name or the wildcard \<open>*\<close>, one per matching triplet in the order of the table, with the
  policy org in place of every empty node org.
\<close>

theorem GetServedNodeOrgs_matching_triplets:
  "GetServedNodeOrgs pm polOrg polName =
     map (\<lambda>sp. if NodeOrg sp = [] then polOrg else NodeOrg sp)
       (filter (\<lambda>sp. BusinessPolOrg sp = polOrg \<and>
                     (BusinessPol sp = polName \<or> BusinessPol sp = ''*''))
          (map snd (ServedPolicies pm)))"
  by (simp add: GetServedNodeOrgs_def GetServedNodeOrgs_loop_eq)

theorem GetServedNodeOrgs_matching_triplets_witness:
  "GetServedNodeOrgs pm_ex ''orgB'' ''polB'' = [''orgB''] \<and>
   GetServedNodeOrgs pm_ex ''orgA'' ''polA'' = [''nodeOrgA''] \<and>
   GetServedNodeOrgs pm_ex ''orgA'' ''polB'' = []"
  using GetServedNodeOrgs_matching_triplets [of pm_ex]
  by (simp add: pm_ex_def served_ex_def)

subsection \<open>Policy entries\<close>

text \<open>
  C10. If \<open>UpdateEntry\<close> is called with a new definition and a new hash and the definition
  fails validation or conversion, it returns an error, and the entry is left with the new
  hash, the current time as its update time and an empty map of service policies, while
  its internal policy is the one it had.
\<close>

theorem UpdateEntry_failure_leaves_partial_update:
  assumes "\<not> Validate env pol \<or> GenPolicyFromBusinessPolicy env pol polId = None"
    and "UpdateEntry env now p pol polId newHash = (p', r)"
  shows "(\<exists>err. r = Inl err) \<and> Hash p' = newHash \<and> Updated p' = now \<and>
         ServicePolicies p' = [] \<and> Policy p' = Policy p"
  using assms by (auto simp: UpdateEntry_def Let_def split: if_splits option.splits)

theorem UpdateEntry_failure_leaves_partial_update_witness:
  "\<not> Validate env_ex [0, 7] \<and>
   UpdateEntry env_ex 1600000000
       (entry_ex ''polA'' [2, 1]
          \<lparr>ServicePolicies := [(''svc'', \<lparr>Policy = ''svcPol'', Updated = 1, Hash = [9]\<rparr>)]\<rparr>)
       [0, 7] ''orgA/polA'' [0, 7]
     = (\<lparr>Policy = ''polA'', Updated = 1600000000, Hash = [0, 7], ServicePolicies = []\<rparr>,
        Inl ValidateError)"
proof -
  let ?p = "entry_ex ''polA'' [2, 1]
              \<lparr>ServicePolicies := [(''svc'', \<lparr>Policy = ''svcPol'', Updated = 1, Hash = [9]\<rparr>)]\<rparr>"
  have v: "\<not> Validate env_ex [0, 7]"
    by (simp add: env_ex_def)
  then have v': "\<not> Validate env_ex [0, 7] \<or>
             GenPolicyFromBusinessPolicy env_ex [0, 7] ''orgA/polA'' = None"
    by simp
  obtain p' r where u: "UpdateEntry env_ex 1600000000 ?p [0, 7] ''orgA/polA'' [0, 7] = (p', r)"
    by (cases "UpdateEntry env_ex 1600000000 ?p [0, 7] ''orgA/polA'' [0, 7]")
  from UpdateEntry_failure_leaves_partial_update [OF v' u] u v
  show ?thesis
    by (simp add: UpdateEntry_def env_ex_def entry_ex_def)
qed

subsection \<open>UpdatePolicies on an org that is not tracked\<close>

text \<open>
  C6. For every org that is not a key of the org-policy map, \<open>UpdatePolicies\<close> returns the
  not-found error and the state it leaves is the state it found: the served triplets, the
  org-policy map and the messages sent are unchanged.
\<close>

theorem UpdatePolicies_unknown_org:
  assumes "\<not> hasOrg pm org"
  shows "UpdatePolicies env now org definedPolicies pm = (Some (OrgNotFound org), pm)"
  using assms by (simp add: UpdatePolicies_def)

theorem UpdatePolicies_unknown_org_witness:
  "\<not> hasOrg pm_ex ''orgC'' \<and>
   UpdatePolicies env_ex now_ex ''orgC'' [(''orgC/polA'', [2, 1])] pm_ex =
     (Some (OrgNotFound ''orgC''), pm_ex)"
proof -
  have h: "\<not> hasOrg pm_ex ''orgC''"
    by (simp add: hasOrg_def pm_ex_def)
  from UpdatePolicies_unknown_org [OF h] h show ?thesis by simp
qed

subsection \<open>Deleting an org\<close>

lemma sendPolicyDeleted_eq:
  "sendPolicyDeleted env org pe pm = pm\<lparr>eventChannel := eventChannel pm @ deletedMessage env org pe\<rparr>"
  by (simp add: sendPolicyDeleted_def deletedMessage_def split: option.splits)

lemma deleteOrg_policies_eq:
  "deleteOrg_policies env org entries pm =
     pm\<lparr>eventChannel := eventChannel pm @ deletedMessages env org entries\<rparr>"
  by (induction entries arbitrary: pm) (simp_all add: deletedMessages_def sendPolicyDeleted_eq)

lemma deleteOrg_find_eq:
  "deleteOrg_find env org al pm =
     (case map_of al org of None \<Rightarrow> pm | Some orgMap \<Rightarrow> deleteOrg_policies env org orgMap pm)"
  by (induction al) auto

lemma deleteOrg_eq:
  "deleteOrg env org pm =
     (None, pm\<lparr>eventChannel := eventChannel pm @ orgMessages env pm org,
               OrgPolicies := AList.delete org (OrgPolicies pm)\<rparr>)"
proof (cases "map_of (OrgPolicies pm) org")
  case None
  then have "org \<notin> fst ` set (OrgPolicies pm)" by (simp add: map_of_eq_None_iff)
  then show ?thesis using None
    by (simp add: deleteOrg_def deleteOrg_find_eq hasOrg_def orgMessages_def)
next
  case (Some orgMap)
  then show ?thesis
    by (simp add: deleteOrg_def deleteOrg_find_eq deleteOrg_policies_eq hasOrg_def orgMessages_def)
qed

subsection \<open>SetCurrentBusinessPolicies\<close>

lemma SetCurrent_add_served [simp]: "ServedPolicies (SetCurrentBusinessPolicies_add sps pm) = ServedPolicies pm"
  by (induction sps arbitrary: pm) auto

lemma SetCurrent_add_events [simp]: "eventChannel (SetCurrentBusinessPolicies_add sps pm) = eventChannel pm"
  by (induction sps arbitrary: pm) auto

lemma SetCurrent_add_lookup:
  "map_of (OrgPolicies (SetCurrentBusinessPolicies_add sps pm)) org =
     (if hasOrg pm org then map_of (OrgPolicies pm) org
      else if org \<in> BusinessPolOrg ` set sps then Some [] else None)"
proof (induction sps arbitrary: pm)
  case Nil
  then show ?case by (auto simp: hasOrg_def split: option.splits)
next
  case (Cons sp sps)
  then show ?case
    by (auto simp: hasOrg_def update_conv' split: option.splits)
qed

lemma SetCurrent_add_keys:
  "fst ` set (OrgPolicies (SetCurrentBusinessPolicies_add sps pm)) =
     fst ` set (OrgPolicies pm) \<union> BusinessPolOrg ` set sps"
proof (induction sps arbitrary: pm)
  case Nil
  then show ?case by simp
next
  case (Cons sp sps)
  then show ?case by (auto simp: hasOrg_iff dom_update)
qed

lemma SetCurrent_add_id:
  "\<forall>sp \<in> set sps. hasOrg pm (BusinessPolOrg sp) \<Longrightarrow> SetCurrentBusinessPolicies_add sps pm = pm"
  by (induction sps) auto

lemma delete_filter: "AList.delete k al = filter (\<lambda>e. fst e \<noteq> k) al"
  by (induction al) auto

lemma messageOrg_deleted: "m \<in> set (deletedMessages env org entries) \<Longrightarrow> messageOrg m = org"
  by (auto simp: deletedMessages_def deletedMessage_def messageOrg_def split: option.splits)

lemma filter_orgMessages:
  "filter (\<lambda>m. messageOrg m = X) (orgMessages env pm k) = (if X = k then orgMessages env pm k else [])"
proof -
  have "\<forall>m \<in> set (orgMessages env pm k). messageOrg m = k"
    by (auto simp: orgMessages_def messageOrg_deleted split: option.splits)
  then show ?thesis
    by (auto simp: filter_empty_conv filter_id_conv)
qed

lemma orgMessages_delete:
  "OrgPolicies pm1 = AList.delete k (OrgPolicies pm) \<Longrightarrow>
   orgMessages env pm1 X = (if X = k then [] else orgMessages env pm X)"
  by (simp add: orgMessages_def delete_conv')

lemma SetCurrent_prune_eq:
  "\<exists>ev. SetCurrentBusinessPolicies_prune env ks pm =
     (None, pm\<lparr>eventChannel := eventChannel pm @ ev,
               OrgPolicies := filter (\<lambda>e. \<not> (fst e \<in> set ks \<and> \<not> serveOrg pm (fst e))) (OrgPolicies pm)\<rparr>)
     \<and> filter (\<lambda>m. messageOrg m = X) ev =
          (if X \<in> set ks \<and> \<not> serveOrg pm X then orgMessages env pm X else [])"
proof (induction ks arbitrary: pm)
  case Nil
  show ?case by (rule exI[of _ "[]"]) simp
next
  case (Cons k rest)
  show ?case
  proof (cases "serveOrg pm k")
    case True
    from Cons.IH[of pm] obtain ev where
      ev: "SetCurrentBusinessPolicies_prune env rest pm =
        (None, pm\<lparr>eventChannel := eventChannel pm @ ev,
               OrgPolicies := filter (\<lambda>e. \<not> (fst e \<in> set rest \<and> \<not> serveOrg pm (fst e))) (OrgPolicies pm)\<rparr>)"
      and fl: "filter (\<lambda>m. messageOrg m = X) ev =
          (if X \<in> set rest \<and> \<not> serveOrg pm X then orgMessages env pm X else [])"
      by blast
    have eq: "filter (\<lambda>e. \<not> (fst e \<in> set rest \<and> \<not> serveOrg pm (fst e))) (OrgPolicies pm) =
          filter (\<lambda>e. \<not> (fst e \<in> set (k # rest) \<and> \<not> serveOrg pm (fst e))) (OrgPolicies pm)"
      using True by (intro filter_cong) auto
    show ?thesis
      using True ev fl eq by (intro exI[of _ ev]) auto
  next
    case False
    define pm1 where "pm1 = pm\<lparr>eventChannel := eventChannel pm @ orgMessages env pm k,
               OrgPolicies := AList.delete k (OrgPolicies pm)\<rparr>"
    have del: "deleteOrg env k pm = (None, pm1)"
      by (simp add: deleteOrg_eq pm1_def)
    have sv: "serveOrg pm1 = serveOrg pm"
      by (rule serveOrg_cong) (simp add: pm1_def)
    from Cons.IH[of pm1] obtain ev where
      ev: "SetCurrentBusinessPolicies_prune env rest pm1 =
        (None, pm1\<lparr>eventChannel := eventChannel pm1 @ ev,
               OrgPolicies := filter (\<lambda>e. \<not> (fst e \<in> set rest \<and> \<not> serveOrg pm1 (fst e))) (OrgPolicies pm1)\<rparr>)"
      and fl: "filter (\<lambda>m. messageOrg m = X) ev =
          (if X \<in> set rest \<and> \<not> serveOrg pm1 X then orgMessages env pm1 X else [])"
      by blast
    have eq: "filter (\<lambda>e. \<not> (fst e \<in> set rest \<and> \<not> serveOrg pm (fst e))) (AList.delete k (OrgPolicies pm)) =
          filter (\<lambda>e. \<not> (fst e \<in> set (k # rest) \<and> \<not> serveOrg pm (fst e))) (OrgPolicies pm)"
      using False unfolding delete_filter filter_filter by (intro filter_cong) auto
    have om: "orgMessages env pm1 X = (if X = k then [] else orgMessages env pm X)"
      by (rule orgMessages_delete) (simp add: pm1_def)
    have st: "SetCurrentBusinessPolicies_prune env (k # rest) pm =
       (None, pm\<lparr>eventChannel := eventChannel pm @ (orgMessages env pm k @ ev),
               OrgPolicies := filter (\<lambda>e. \<not> (fst e \<in> set (k # rest) \<and> \<not> serveOrg pm (fst e))) (OrgPolicies pm)\<rparr>)"
    proof -
      have "SetCurrentBusinessPolicies_prune env (k # rest) pm =
              SetCurrentBusinessPolicies_prune env rest pm1"
        using False del by simp
      also have "\<dots> = (None, pm1\<lparr>eventChannel := eventChannel pm1 @ ev,
               OrgPolicies := filter (\<lambda>e. \<not> (fst e \<in> set rest \<and> \<not> serveOrg pm (fst e))) (OrgPolicies pm1)\<rparr>)"
        using ev by (simp only: sv)
      also have "\<dots> = (None, pm\<lparr>eventChannel := eventChannel pm @ (orgMessages env pm k @ ev),
               OrgPolicies := filter (\<lambda>e. \<not> (fst e \<in> set (k # rest) \<and> \<not> serveOrg pm (fst e))) (OrgPolicies pm)\<rparr>)"
        using eq by (simp add: pm1_def)
      finally show ?thesis .
    qed
    have "filter (\<lambda>m. messageOrg m = X) (orgMessages env pm k @ ev) =
          (if X \<in> set (k # rest) \<and> \<not> serveOrg pm X then orgMessages env pm X else [])"
      using False fl om by (auto simp: filter_orgMessages sv)
    with st show ?thesis by blast
  qed
qed

lemma SetCurrent_prune_id:
  "\<forall>k \<in> set ks. serveOrg pm k \<Longrightarrow> SetCurrentBusinessPolicies_prune env ks pm = (None, pm)"
  by (induction ks) auto

lemma map_of_filter_fst:
  "map_of (filter (\<lambda>e. P (fst e)) xs) k = (if P k then map_of xs k else None)"
  by (induction xs) auto

lemma SetCurrent_early:
  "ServedPolicies pm = [] \<Longrightarrow> SetCurrentBusinessPolicies env [] pm = (None, pm)"
  by (simp add: SetCurrentBusinessPolicies_def)

lemma hasOrg_setServed [simp]: "hasOrg (setServedBusinessPolicies servedPols pm) = hasOrg pm"
  by (simp add: hasOrg_def setServedBusinessPolicies_def fun_eq_iff)

lemma orgMessages_cong:
  "map_of (OrgPolicies pm') X = map_of (OrgPolicies pm) X \<Longrightarrow> orgMessages env pm' X = orgMessages env pm X"
  by (simp add: orgMessages_def)

lemma SetCurrent_eq:
  assumes "\<not> (ServedPolicies pm = [] \<and> servedPols = [])"
  defines "pm3 \<equiv> SetCurrentBusinessPolicies_add (map snd servedPols)
                      (setServedBusinessPolicies servedPols pm)"
  shows "\<exists>ev. SetCurrentBusinessPolicies env servedPols pm =
     (None, pm3\<lparr>eventChannel := eventChannel pm @ ev,
               OrgPolicies := filter (\<lambda>e. fst e \<in> servedOrgs servedPols) (OrgPolicies pm3)\<rparr>)
     \<and> filter (\<lambda>m. messageOrg m = X) ev =
          (if hasOrg pm X \<and> X \<notin> servedOrgs servedPols then orgMessages env pm X else [])"
proof -
  define pm1 where "pm1 = setServedBusinessPolicies servedPols pm"
  have pm2: "(if OrgPolicies pm1 = [] then pm1\<lparr>OrgPolicies := []\<rparr> else pm1) = pm1"
    by simp
  have pm3: "pm3 = SetCurrentBusinessPolicies_add (map snd servedPols) pm1"
    by (simp add: pm3_def pm1_def)
  have call: "SetCurrentBusinessPolicies env servedPols pm =
      SetCurrentBusinessPolicies_prune env (map fst (OrgPolicies pm3)) pm3"
    using assms(1) unfolding SetCurrentBusinessPolicies_def Let_def pm1_def[symmetric] pm2 pm3
    by auto
  have sv: "serveOrg pm3 org \<longleftrightarrow> org \<in> servedOrgs servedPols" for org
    by (simp add: serveOrg_iff pm3 pm1_def setServedBusinessPolicies_def)
  have ev3: "eventChannel pm3 = eventChannel pm"
    by (simp add: pm3 pm1_def setServedBusinessPolicies_def)
  from SetCurrent_prune_eq[of env "map fst (OrgPolicies pm3)" pm3 X] obtain ev where
    pr: "SetCurrentBusinessPolicies_prune env (map fst (OrgPolicies pm3)) pm3 =
     (None, pm3\<lparr>eventChannel := eventChannel pm3 @ ev,
               OrgPolicies := filter (\<lambda>e. \<not> (fst e \<in> set (map fst (OrgPolicies pm3)) \<and> \<not> serveOrg pm3 (fst e))) (OrgPolicies pm3)\<rparr>)"
    and fl: "filter (\<lambda>m. messageOrg m = X) ev =
          (if X \<in> set (map fst (OrgPolicies pm3)) \<and> \<not> serveOrg pm3 X then orgMessages env pm3 X else [])"
    by blast
  have eq: "filter (\<lambda>e. \<not> (fst e \<in> set (map fst (OrgPolicies pm3)) \<and> \<not> serveOrg pm3 (fst e))) (OrgPolicies pm3)
     = filter (\<lambda>e. fst e \<in> servedOrgs servedPols) (OrgPolicies pm3)"
    by (intro filter_cong) (auto simp: sv)
  have keys: "X \<in> set (map fst (OrgPolicies pm3)) \<and> \<not> serveOrg pm3 X \<longleftrightarrow>
      hasOrg pm X \<and> X \<notin> servedOrgs servedPols"
  proof -
    have "fst ` set (OrgPolicies pm3) = fst ` set (OrgPolicies pm) \<union> servedOrgs servedPols"
      unfolding pm3 SetCurrent_add_keys by (simp add: pm1_def setServedBusinessPolicies_def servedOrgs_def)
    then show ?thesis
      by (auto simp: sv hasOrg_iff)
  qed
  have om: "hasOrg pm X \<Longrightarrow> orgMessages env pm3 X = orgMessages env pm X"
    by (rule orgMessages_cong) (simp add: pm3 pm1_def SetCurrent_add_lookup, simp add: setServedBusinessPolicies_def)
  have "SetCurrentBusinessPolicies env servedPols pm =
     (None, pm3\<lparr>eventChannel := eventChannel pm @ ev,
               OrgPolicies := filter (\<lambda>e. fst e \<in> servedOrgs servedPols) (OrgPolicies pm3)\<rparr>)"
    by (simp only: call pr eq ev3)
  moreover have "filter (\<lambda>m. messageOrg m = X) ev =
          (if hasOrg pm X \<and> X \<notin> servedOrgs servedPols then orgMessages env pm X else [])"
    using fl om unfolding keys by simp
  ultimately show ?thesis by blast
qed

subsection \<open>UpdatePolicies keeps the served triplets and adds no org\<close>

lemma map_entry_keys: "map fst (AList.map_entry k f al) = map fst al"
  by (induction al) auto

lemma map_entry_absent: "map_of al k = None \<Longrightarrow> AList.map_entry k f al = al"
  by (induction al) (auto split: if_splits)

lemma map_entry_fixed: "map_of al k = Some v \<Longrightarrow> f v = v \<Longrightarrow> AList.map_entry k f al = al"
  by (induction al) (auto split: if_splits)

lemma map_entry_twice:
  "AList.map_entry k f (AList.map_entry k g al) = AList.map_entry k (\<lambda>v. f (g v)) al"
  by (induction al) auto

lemma delete_absent: "map_of al k = None \<Longrightarrow> AList.delete k al = al"
  by (simp add: map_of_eq_None_iff)

lemma deleteBusinessPolicy_eq:
  "deleteBusinessPolicy env org polName pm =
     (None, pm\<lparr>eventChannel := eventChannel pm @ entryMessages env pm org polName,
               OrgPolicies := AList.map_entry org (AList.delete polName) (OrgPolicies pm)\<rparr>)"
proof (cases "map_of (OrgPolicies pm) org")
  case None
  then show ?thesis
    by (simp add: deleteBusinessPolicy_def hasOrg_def entryMessages_def map_entry_absent)
next
  case (Some orgMap)
  show ?thesis
  proof (cases "map_of orgMap polName")
    case None
    have "AList.map_entry org (AList.delete polName) (OrgPolicies pm) = OrgPolicies pm"
      using Some None by (intro map_entry_fixed[of _ _ orgMap]) (simp_all add: delete_absent)
    then show ?thesis
      using Some None by (simp add: deleteBusinessPolicy_def hasOrg_def entryMessages_def)
  next
    case (Some pe)
    then show ?thesis
      using \<open>map_of (OrgPolicies pm) org = Some orgMap\<close>
      by (simp add: deleteBusinessPolicy_def hasOrg_def entryMessages_def sendPolicyDeleted_eq)
  qed
qed

lemma UpdatePolicies_prune_frame:
  "\<exists>ev orgs. UpdatePolicies_prune env org defs ks pm =
      (None, pm\<lparr>eventChannel := eventChannel pm @ ev, OrgPolicies := orgs\<rparr>)
     \<and> map fst orgs = map fst (OrgPolicies pm)"
proof (induction ks arbitrary: pm)
  case Nil
  show ?case by (intro exI[of _ "[]"] exI[of _ "OrgPolicies pm"]) simp
next
  case (Cons k ks)
  show ?case
  proof (cases "need_delete env pm org defs k")
    case True
    define pm1 where "pm1 = pm\<lparr>eventChannel := eventChannel pm @ entryMessages env pm org k,
               OrgPolicies := AList.map_entry org (AList.delete k) (OrgPolicies pm)\<rparr>"
    from Cons.IH[of pm1] obtain ev orgs where
      "UpdatePolicies_prune env org defs ks pm1 =
        (None, pm1\<lparr>eventChannel := eventChannel pm1 @ ev, OrgPolicies := orgs\<rparr>)"
      "map fst orgs = map fst (OrgPolicies pm1)" by blast
    then show ?thesis using True
      by (intro exI[of _ "entryMessages env pm org k @ ev"] exI[of _ orgs])
         (simp add: deleteBusinessPolicy_eq pm1_def map_entry_keys)
  next
    case False
    then show ?thesis using Cons.IH[of pm] by simp
  qed
qed

lemma UpdatePolicies_one_frame:
  "\<exists>ev orgs. snd (UpdatePolicies_one env now org polId exPol pm) =
      pm\<lparr>eventChannel := eventChannel pm @ ev, OrgPolicies := orgs\<rparr>
     \<and> map fst orgs = map fst (OrgPolicies pm)"
proof -
  have base: "\<exists>ev orgs. pm = pm\<lparr>eventChannel := eventChannel pm @ ev, OrgPolicies := orgs\<rparr>
     \<and> map fst orgs = map fst (OrgPolicies pm)"
    by (intro exI[of _ "[]"] exI[of _ "OrgPolicies pm"]) simp
  have set1: "\<exists>ev orgs. setEntry org n pe pm = pm\<lparr>eventChannel := eventChannel pm @ ev, OrgPolicies := orgs\<rparr>
     \<and> map fst orgs = map fst (OrgPolicies pm)" for n pe
    by (intro exI[of _ "[]"] exI[of _ "OrgPolicies (setEntry org n pe pm)"]) (simp add: setEntry_def map_entry_keys)
  have set2: "\<exists>ev orgs. (setEntry org n pe pm)\<lparr>eventChannel := eventChannel (setEntry org n pe pm) @ [m]\<rparr>
       = pm\<lparr>eventChannel := eventChannel pm @ ev, OrgPolicies := orgs\<rparr>
     \<and> map fst orgs = map fst (OrgPolicies pm)" for n pe m
    by (intro exI[of _ "[m]"] exI[of _ "OrgPolicies (setEntry org n pe pm)"]) (simp add: setEntry_def map_entry_keys)
  show ?thesis
    unfolding UpdatePolicies_one_def Let_def
    by (auto split: option.splits sum.splits prod.splits simp: base set1 set2)
qed

lemma UpdatePolicies_add_frame:
  "\<exists>ev orgs. snd (UpdatePolicies_add env now org defs pm) =
      pm\<lparr>eventChannel := eventChannel pm @ ev, OrgPolicies := orgs\<rparr>
     \<and> map fst orgs = map fst (OrgPolicies pm)"
proof (induction defs arbitrary: pm)
  case Nil
  show ?case by (intro exI[of _ "[]"] exI[of _ "OrgPolicies pm"]) simp
next
  case (Cons d defs)
  obtain r pm1 where one: "UpdatePolicies_one env now org (fst d) (snd d) pm = (r, pm1)"
    by (cases "UpdatePolicies_one env now org (fst d) (snd d) pm")
  from UpdatePolicies_one_frame[of env now org "fst d" "snd d" pm] one obtain ev1 orgs1 where
    pm1: "pm1 = pm\<lparr>eventChannel := eventChannel pm @ ev1, OrgPolicies := orgs1\<rparr>"
    and k1: "map fst orgs1 = map fst (OrgPolicies pm)" by auto
  show ?case
  proof (cases r)
    case None
    from Cons.IH[of pm1] obtain ev orgs where
      "snd (UpdatePolicies_add env now org defs pm1) =
         pm1\<lparr>eventChannel := eventChannel pm1 @ ev, OrgPolicies := orgs\<rparr>"
      "map fst orgs = map fst (OrgPolicies pm1)" by blast
    then show ?thesis using one None k1
      by (intro exI[of _ "ev1 @ ev"] exI[of _ orgs]) (simp add: pm1)
  next
    case (Some err)
    then show ?thesis using one k1
      by (intro exI[of _ ev1] exI[of _ orgs1]) (simp add: pm1)
  qed
qed



lemma emitted_append [simp]:
  "eventChannel pm' = eventChannel pm @ ev \<Longrightarrow> emitted pm pm' = ev"
  by (simp add: emitted_def)

subsection \<open>What SetCurrentBusinessPolicies leaves\<close>

lemma SetCurrent_result:
  assumes "\<not> (ServedPolicies pm = [] \<and> servedPols = [])"
    and "SetCurrentBusinessPolicies env servedPols pm = (r, pm')"
  shows "r = None"
    and "ServedPolicies pm' = servedPols"
    and "OrgPolicies pm' = filter (\<lambda>e. fst e \<in> servedOrgs servedPols)
           (OrgPolicies (SetCurrentBusinessPolicies_add (map snd servedPols)
              (setServedBusinessPolicies servedPols pm)))"
    and "\<exists>ev. eventChannel pm' = eventChannel pm @ ev \<and>
           filter (\<lambda>m. messageOrg m = X) ev =
             (if hasOrg pm X \<and> X \<notin> servedOrgs servedPols then orgMessages env pm X else [])"
proof -
  from SetCurrent_eq[OF assms(1), of env X] obtain ev where
    eq: "SetCurrentBusinessPolicies env servedPols pm =
      (None, (SetCurrentBusinessPolicies_add (map snd servedPols)
                (setServedBusinessPolicies servedPols pm))
         \<lparr>eventChannel := eventChannel pm @ ev,
          OrgPolicies := filter (\<lambda>e. fst e \<in> servedOrgs servedPols)
             (OrgPolicies (SetCurrentBusinessPolicies_add (map snd servedPols)
                (setServedBusinessPolicies servedPols pm)))\<rparr>)"
    and fl: "filter (\<lambda>m. messageOrg m = X) ev =
             (if hasOrg pm X \<and> X \<notin> servedOrgs servedPols then orgMessages env pm X else [])"
    by blast
  from eq assms(2) show "r = None" by simp
  from eq assms(2) have pm': "pm' = (SetCurrentBusinessPolicies_add (map snd servedPols)
                (setServedBusinessPolicies servedPols pm))
         \<lparr>eventChannel := eventChannel pm @ ev,
          OrgPolicies := filter (\<lambda>e. fst e \<in> servedOrgs servedPols)
             (OrgPolicies (SetCurrentBusinessPolicies_add (map snd servedPols)
                (setServedBusinessPolicies servedPols pm)))\<rparr>" by simp
  show "ServedPolicies pm' = servedPols"
    by (simp add: pm' setServedBusinessPolicies_def)
  show "OrgPolicies pm' = filter (\<lambda>e. fst e \<in> servedOrgs servedPols)
           (OrgPolicies (SetCurrentBusinessPolicies_add (map snd servedPols)
              (setServedBusinessPolicies servedPols pm)))"
    by (simp add: pm')
  have "eventChannel pm' = eventChannel pm @ ev" by (simp add: pm')
  with fl show "\<exists>ev. eventChannel pm' = eventChannel pm @ ev \<and>
           filter (\<lambda>m. messageOrg m = X) ev =
             (if hasOrg pm X \<and> X \<notin> servedOrgs servedPols then orgMessages env pm X else [])"
    by blast
qed

lemma setServed_simps [simp]:
  "OrgPolicies (setServedBusinessPolicies servedPols pm) = OrgPolicies pm"
  "ServedPolicies (setServedBusinessPolicies servedPols pm) = servedPols"
  "eventChannel (setServedBusinessPolicies servedPols pm) = eventChannel pm"
  by (simp_all add: setServedBusinessPolicies_def)

lemma keys_filter_fst: "fst ` set (filter (\<lambda>e. fst e \<in> A) xs) = fst ` set xs \<inter> A"
  by (induction xs) auto


lemma SetCurrent_keys:
  assumes "\<not> (ServedPolicies pm = [] \<and> servedPols = [])"
    and "SetCurrentBusinessPolicies env servedPols pm = (r, pm')"
  shows "fst ` set (OrgPolicies pm') = servedOrgs servedPols"
proof -
  have "fst ` set (OrgPolicies (SetCurrentBusinessPolicies_add (map snd servedPols)
              (setServedBusinessPolicies servedPols pm))) =
        fst ` set (OrgPolicies pm) \<union> servedOrgs servedPols"
    unfolding SetCurrent_add_keys
    by (simp add: servedOrgs_def image_image)
  then have "fst ` set (OrgPolicies pm') = (fst ` set (OrgPolicies pm) \<union> servedOrgs servedPols) \<inter> servedOrgs servedPols"
    by (simp only: SetCurrent_result(3)[OF assms] keys_filter_fst)
  then show ?thesis by (simp add: Int_absorb1)
qed





lemma servedOrgs_cong: "set sp' = set sp \<Longrightarrow> servedOrgs sp' = servedOrgs sp"
  by (simp add: servedOrgs_def)

lemma SetCurrent_again:
  assumes keys: "fst ` set (OrgPolicies pm1) = servedOrgs servedPols'"
    and ne: "servedPols' \<noteq> []"
  shows "SetCurrentBusinessPolicies env servedPols' pm1 =
           (None, setServedBusinessPolicies servedPols' pm1)"
proof -
  let ?pm = "setServedBusinessPolicies servedPols' pm1"
  have "\<forall>sp \<in> set (map snd servedPols'). hasOrg ?pm (BusinessPolOrg sp)"
    using keys by (auto simp: hasOrg_iff servedOrgs_def)
  then have add: "SetCurrentBusinessPolicies_add (map snd servedPols') ?pm = ?pm"
    by (rule SetCurrent_add_id)
  have "\<forall>k \<in> set (map fst (OrgPolicies ?pm)). serveOrg ?pm k"
    using keys by (simp add: serveOrg_iff)
  then have pr: "SetCurrentBusinessPolicies_prune env (map fst (OrgPolicies ?pm)) ?pm = (None, ?pm)"
    by (rule SetCurrent_prune_id)
  have pm2: "(if OrgPolicies ?pm = [] then ?pm\<lparr>OrgPolicies := []\<rparr> else ?pm) = ?pm"
    by simp
  show ?thesis
    using ne unfolding SetCurrentBusinessPolicies_def Let_def pm2 add pr by simp
qed

text \<open>
  C7. A second call of \<open>SetCurrentBusinessPolicies\<close> with the same triplets as the first
  (the same set of pairs, in any order) returns no error, leaves the org-policy map, and so
  the set of tracked orgs, as the first call left it, and sends no message.
\<close>

theorem SetCurrentBusinessPolicies_twice:
  assumes "SetCurrentBusinessPolicies env servedPols pm = (r1, pm1)"
    and "set servedPols' = set servedPols"
    and "SetCurrentBusinessPolicies env servedPols' pm1 = (r2, pm2)"
  shows "r2 = None \<and> OrgPolicies pm2 = OrgPolicies pm1 \<and>
         set (GetAllPolicyOrgs pm2) = set (GetAllPolicyOrgs pm1) \<and>
         eventChannel pm2 = eventChannel pm1 \<and> emitted pm1 pm2 = []"
proof -
  have "r2 = None \<and> OrgPolicies pm2 = OrgPolicies pm1 \<and> eventChannel pm2 = eventChannel pm1"
  proof (cases "servedPols = []")
    case True
    then have e: "servedPols' = []" using assms(2) by simp
    have "ServedPolicies pm1 = []"
    proof (cases "ServedPolicies pm = []")
      case True
      then show ?thesis using assms(1) \<open>servedPols = []\<close>
        by (auto simp: SetCurrentBusinessPolicies_def)
    next
      case False
      then show ?thesis using SetCurrent_result(2)[OF _ assms(1)] \<open>servedPols = []\<close> by simp
    qed
    then show ?thesis using assms(3) e by (simp add: SetCurrentBusinessPolicies_def)
  next
    case False
    then have ne: "servedPols' \<noteq> []" using assms(2) by auto
    have "fst ` set (OrgPolicies pm1) = servedOrgs servedPols"
      using SetCurrent_keys[OF _ assms(1)] False by simp
    then have "fst ` set (OrgPolicies pm1) = servedOrgs servedPols'"
      by (simp add: servedOrgs_cong[OF assms(2)])
    from SetCurrent_again[OF this ne, of env] assms(3) show ?thesis
      by auto
  qed
  then show ?thesis by (simp add: GetAllPolicyOrgs_def emitted_def)
qed

theorem SetCurrentBusinessPolicies_twice_witness:
  "SetCurrentBusinessPolicies env_ex served2_ex pm_ex =
     (None, \<lparr>eventChannel = [PolicyDeletedMessage [] ''polA'' ''orgA'' ''json polA''],
             ServedPolicies = served2_ex,
             OrgPolicies = [(''orgB'', [(''polB'', Some (entry_ex ''polB'' [3])),
                                        (''polC'', Some (entry_ex ''polC'' [4]))]),
                            (''orgC'', [])]\<rparr>) \<and>
   set (rev served2_ex) = set served2_ex \<and>
   SetCurrentBusinessPolicies env_ex (rev served2_ex)
       \<lparr>eventChannel = [PolicyDeletedMessage [] ''polA'' ''orgA'' ''json polA''],
        ServedPolicies = served2_ex,
        OrgPolicies = [(''orgB'', [(''polB'', Some (entry_ex ''polB'' [3])),
                                   (''polC'', Some (entry_ex ''polC'' [4]))]),
                       (''orgC'', [])]\<rparr> =
     (None, \<lparr>eventChannel = [PolicyDeletedMessage [] ''polA'' ''orgA'' ''json polA''],
             ServedPolicies = rev served2_ex,
             OrgPolicies = [(''orgB'', [(''polB'', Some (entry_ex ''polB'' [3])),
                                        (''polC'', Some (entry_ex ''polC'' [4]))]),
                            (''orgC'', [])]\<rparr>)"
proof -
  let ?orgs = "[(''orgB'', [(''polB'', Some (entry_ex ''polB'' [3])),
                            (''polC'', Some (entry_ex ''polC'' [4]))]),
                (''orgC'', [])] :: (string \<times> (string \<times> string BusinessPolicyEntry option) list) list"
  let ?pm1 = "\<lparr>eventChannel = [PolicyDeletedMessage [] ''polA'' ''orgA'' ''json polA''],
             ServedPolicies = served2_ex, OrgPolicies = ?orgs\<rparr>"
  have c1: "SetCurrentBusinessPolicies env_ex served2_ex pm_ex = (None, ?pm1)"
    by (simp add: SetCurrentBusinessPolicies_def setServedBusinessPolicies_def hasOrg_def
          serveOrg_def served_ex_def served2_ex_def pm_ex_def deleteOrg_def
          sendPolicyDeleted_def env_ex_def entry_ex_def)
  have st: "set (rev served2_ex) = set served2_ex" by simp
  obtain r2 pm2 where c2: "SetCurrentBusinessPolicies env_ex (rev served2_ex) ?pm1 = (r2, pm2)"
    by (cases "SetCurrentBusinessPolicies env_ex (rev served2_ex) ?pm1")
  have sv: "ServedPolicies pm2 = rev served2_ex"
    using c2 by (simp add: SetCurrentBusinessPolicies_def setServedBusinessPolicies_def hasOrg_def
          serveOrg_def served2_ex_def deleteOrg_def, auto)
  from SetCurrentBusinessPolicies_twice [OF c1 st c2]
  have "r2 = None" "OrgPolicies pm2 = ?orgs" "eventChannel pm2 = [PolicyDeletedMessage [] ''polA'' ''orgA'' ''json polA'']"
    by simp_all
  with sv have "pm2 = \<lparr>eventChannel = [PolicyDeletedMessage [] ''polA'' ''orgA'' ''json polA''],
             ServedPolicies = rev served2_ex, OrgPolicies = ?orgs\<rparr>"
    by (cases pm2) simp
  with c1 c2 st \<open>r2 = None\<close> show ?thesis by simp
qed

text \<open>
  C3, as amended. If org \<open>X\<close> is tracked with the policy map \<open>orgMap\<close> and served, and the new
  triplets name \<open>X\<close> no more, then this one call of \<open>SetCurrentBusinessPolicies\<close> returns no
  error, removes \<open>X\<close> from the tracked orgs, and the messages it sends for \<open>X\<close> are the
  deleted messages of \<open>orgMap\<close>: one \<open>PolicyDeletedMessage\<close> for every entry that is not
  \<open>nil\<close> and whose policy serializes, and none for an entry whose policy does not.
\<close>

theorem SetCurrentBusinessPolicies_cascade:
  assumes "map_of (OrgPolicies pm) X = Some orgMap"
    and "serveOrg pm X"
    and "X \<notin> servedOrgs servedPols"
    and "SetCurrentBusinessPolicies env servedPols pm = (r, pm')"
  shows "r = None \<and> \<not> hasOrg pm' X \<and>
         filter (\<lambda>m. messageOrg m = X) (emitted pm pm') = deletedMessages env X orgMap"
proof -
  have ne: "\<not> (ServedPolicies pm = [] \<and> servedPols = [])"
    using assms(2) by (auto simp: serveOrg_def)
  have h: "hasOrg pm X" using assms(1) by (simp add: hasOrg_def)
  from SetCurrent_result(4)[OF ne assms(4), of X] obtain ev where
    ev: "eventChannel pm' = eventChannel pm @ ev"
    and fl: "filter (\<lambda>m. messageOrg m = X) ev =
             (if hasOrg pm X \<and> X \<notin> servedOrgs servedPols then orgMessages env pm X else [])"
    by blast
  have "filter (\<lambda>m. messageOrg m = X) (emitted pm pm') = deletedMessages env X orgMap"
    using fl h assms(1,3) by (simp add: emitted_append[OF ev] orgMessages_def)
  moreover have "\<not> hasOrg pm' X"
    using assms(3) by (simp add: hasOrg_iff SetCurrent_keys[OF ne assms(4)])
  moreover have "r = None" by (rule SetCurrent_result(1)[OF ne assms(4)])
  ultimately show ?thesis by simp
qed

theorem SetCurrentBusinessPolicies_cascade_witness:
  "map_of (OrgPolicies pm_ex) ''orgB'' =
     Some [(''polB'', Some (entry_ex ''polB'' [3])), (''polC'', Some (entry_ex ''polC'' [4]))] \<and>
   serveOrg pm_ex ''orgB'' \<and> ''orgB'' \<notin> servedOrgs (served1_ex) \<and>
   fst (SetCurrentBusinessPolicies env_ex (served1_ex) pm_ex) = None \<and>
   \<not> hasOrg (snd (SetCurrentBusinessPolicies env_ex (served1_ex) pm_ex)) ''orgB'' \<and>
   filter (\<lambda>m. messageOrg m = ''orgB'')
     (emitted pm_ex (snd (SetCurrentBusinessPolicies env_ex (served1_ex) pm_ex))) =
     [PolicyDeletedMessage [] ''polB'' ''orgB'' ''json polB'',
      PolicyDeletedMessage [] ''polC'' ''orgB'' ''json polC'']"
proof -
  have m: "map_of (OrgPolicies pm_ex) ''orgB'' =
     Some [(''polB'', Some (entry_ex ''polB'' [3])), (''polC'', Some (entry_ex ''polC'' [4]))]"
    by (simp add: pm_ex_def)
  have s: "serveOrg pm_ex ''orgB''"
    by (simp add: serveOrg_def pm_ex_def served_ex_def)
  have n: "''orgB'' \<notin> servedOrgs (served1_ex)"
    by (simp add: servedOrgs_def served1_ex_def)
  have d: "deletedMessages env_ex ''orgB''
       [(''polB'', Some (entry_ex ''polB'' [3])), (''polC'', Some (entry_ex ''polC'' [4]))] =
     [PolicyDeletedMessage [] ''polB'' ''orgB'' ''json polB'',
      PolicyDeletedMessage [] ''polC'' ''orgB'' ''json polC'']"
    by (simp add: deletedMessages_def deletedMessage_def env_ex_def entry_ex_def)
  have r: "fst (SetCurrentBusinessPolicies env_ex served1_ex pm_ex) = None \<and>
   \<not> hasOrg (snd (SetCurrentBusinessPolicies env_ex served1_ex pm_ex)) ''orgB'' \<and>
   filter (\<lambda>m. messageOrg m = ''orgB'')
     (emitted pm_ex (snd (SetCurrentBusinessPolicies env_ex served1_ex pm_ex))) =
     deletedMessages env_ex ''orgB''
       [(''polB'', Some (entry_ex ''polB'' [3])), (''polC'', Some (entry_ex ''polC'' [4]))]"
    by (rule SetCurrentBusinessPolicies_cascade [OF m s n surjective_pairing])
  from r[unfolded d] m s n show ?thesis by blast
qed

text \<open>
  C3 as stated asks for one deleted message per cached policy. When
  \<open>policy.MarshalPolicy\<close> fails, \<open>deleteOrg\<close> logs the error and sends nothing: here org
  \<open>orgB\<close> caches one policy, the new triplets drop \<open>orgB\<close>, and the call removes the org
  without a message.
\<close>

theorem SetCurrentBusinessPolicies_cascade_counterexample:
  "map_of (OrgPolicies pm_unserializable_ex) ''orgB'' =
     Some [(''unserializable'', Some (entry_ex ''unserializable'' [5]))] \<and>
   serveOrg pm_unserializable_ex ''orgB'' \<and>
   ''orgB'' \<notin> servedOrgs (served1_ex) \<and>
   SetCurrentBusinessPolicies env_ex (served1_ex) pm_unserializable_ex =
     (None, \<lparr>eventChannel = [], ServedPolicies = served1_ex,
             OrgPolicies = [(''orgA'', [])]\<rparr>) \<and>
   emitted pm_unserializable_ex
     \<lparr>eventChannel = [], ServedPolicies = served1_ex, OrgPolicies = [(''orgA'', [])]\<rparr> = []"
  by (simp add: SetCurrentBusinessPolicies_def setServedBusinessPolicies_def hasOrg_def
        serveOrg_def served_ex_def served1_ex_def pm_unserializable_ex_def deleteOrg_def servedOrgs_def
        sendPolicyDeleted_def env_ex_def entry_ex_def emitted_def)

subsection \<open>The first loop of UpdatePolicies\<close>

lemma need_delete_cong:
  "ServedPolicies pm' = ServedPolicies pm \<Longrightarrow> need_delete env pm' = need_delete env pm"
  by (simp add: need_delete_def serveBusinessPolicy_def fun_eq_iff)

lemma entryMessages_after_delete:
  "k' \<noteq> k \<Longrightarrow>
   entryMessages env (pm\<lparr>eventChannel := ev, OrgPolicies := AList.map_entry org (AList.delete k) (OrgPolicies pm)\<rparr>) org k'
     = entryMessages env pm org k'"
  by (simp add: entryMessages_def map_of_map_entry split: option.splits)

lemma map_entry_same: "(\<And>v. f v = v) \<Longrightarrow> AList.map_entry k f al = al"
  by (induction al) auto

lemma UpdatePolicies_prune_eq:
  assumes "distinct ks"
  shows "UpdatePolicies_prune env org defs ks pm =
     (None, pm\<lparr>eventChannel := eventChannel pm @
                  concat (map (\<lambda>k. if need_delete env pm org defs k
                                     then entryMessages env pm org k else []) ks),
               OrgPolicies := AList.map_entry org
                  (filter (\<lambda>e. \<not> (fst e \<in> set ks \<and> need_delete env pm org defs (fst e))))
                  (OrgPolicies pm)\<rparr>)"
  using assms
proof (induction ks arbitrary: pm)
  case Nil
  show ?case by (simp add: map_entry_same)
next
  case (Cons k ks)
  let ?nd = "need_delete env pm org defs"
  show ?case
  proof (cases "?nd k")
    case False
    have eq: "filter (\<lambda>e. \<not> (fst e \<in> set ks \<and> ?nd (fst e))) =
          filter (\<lambda>e. \<not> (fst e \<in> set (k # ks) \<and> ?nd (fst e)))"
      using False by (intro ext filter_cong) auto
    have "UpdatePolicies_prune env org defs (k # ks) pm = UpdatePolicies_prune env org defs ks pm"
      using False by simp
    also have "\<dots> = (None, pm\<lparr>eventChannel := eventChannel pm @
                  concat (map (\<lambda>k. if ?nd k then entryMessages env pm org k else []) ks),
               OrgPolicies := AList.map_entry org
                  (filter (\<lambda>e. \<not> (fst e \<in> set ks \<and> ?nd (fst e))))
                  (OrgPolicies pm)\<rparr>)"
      using Cons.prems by (intro Cons.IH) simp
    also have "\<dots> = (None, pm\<lparr>eventChannel := eventChannel pm @
                  concat (map (\<lambda>k. if ?nd k then entryMessages env pm org k else []) (k # ks)),
               OrgPolicies := AList.map_entry org
                  (filter (\<lambda>e. \<not> (fst e \<in> set (k # ks) \<and> ?nd (fst e))))
                  (OrgPolicies pm)\<rparr>)"
      unfolding eq using False by simp
    finally show ?thesis .
  next
    case True
    define pm1 where "pm1 = pm\<lparr>eventChannel := eventChannel pm @ entryMessages env pm org k,
               OrgPolicies := AList.map_entry org (AList.delete k) (OrgPolicies pm)\<rparr>"
    have nd1: "need_delete env pm1 = need_delete env pm"
      by (rule need_delete_cong) (simp add: pm1_def)
    have em: "map (\<lambda>k'. if ?nd k' then entryMessages env pm1 org k' else []) ks =
              map (\<lambda>k'. if ?nd k' then entryMessages env pm org k' else []) ks"
    proof (intro map_cong refl)
      fix k' assume "k' \<in> set ks"
      then have "k' \<noteq> k" using Cons.prems by auto
      then show "(if ?nd k' then entryMessages env pm1 org k' else []) =
                 (if ?nd k' then entryMessages env pm org k' else [])"
        by (simp add: pm1_def entryMessages_after_delete)
    qed
    have fl: "(\<lambda>m. filter (\<lambda>e. \<not> (fst e \<in> set ks \<and> ?nd (fst e))) (AList.delete k m)) =
          filter (\<lambda>e. \<not> (fst e \<in> set (k # ks) \<and> ?nd (fst e)))"
      unfolding delete_filter filter_filter using True by (intro ext filter_cong) auto
    have "UpdatePolicies_prune env org defs (k # ks) pm = UpdatePolicies_prune env org defs ks pm1"
      using True by (simp add: deleteBusinessPolicy_eq pm1_def)
    also have "\<dots> = (None, pm1\<lparr>eventChannel := eventChannel pm1 @
                  concat (map (\<lambda>k. if need_delete env pm1 org defs k
                                     then entryMessages env pm1 org k else []) ks),
               OrgPolicies := AList.map_entry org
                  (filter (\<lambda>e. \<not> (fst e \<in> set ks \<and> need_delete env pm1 org defs (fst e))))
                  (OrgPolicies pm1)\<rparr>)"
      using Cons.prems by (intro Cons.IH) simp
    also have "\<dots> = (None, pm\<lparr>eventChannel := eventChannel pm @
                  concat (map (\<lambda>k. if ?nd k then entryMessages env pm org k else []) (k # ks)),
               OrgPolicies := AList.map_entry org
                  (filter (\<lambda>e. \<not> (fst e \<in> set (k # ks) \<and> ?nd (fst e))))
                  (OrgPolicies pm)\<rparr>)"
    proof -
      have orgs: "AList.map_entry org
                  (filter (\<lambda>e. \<not> (fst e \<in> set ks \<and> ?nd (fst e)))) (OrgPolicies pm1) =
            AList.map_entry org
                  (filter (\<lambda>e. \<not> (fst e \<in> set (k # ks) \<and> ?nd (fst e)))) (OrgPolicies pm)"
      proof -
        have o1: "OrgPolicies pm1 = AList.map_entry org (AList.delete k) (OrgPolicies pm)"
          by (simp add: pm1_def)
        show ?thesis unfolding o1 map_entry_twice fl by (rule refl)
      qed
      have evs: "eventChannel pm1 @
                  concat (map (\<lambda>k. if ?nd k then entryMessages env pm org k else []) ks) =
            eventChannel pm @
                  concat (map (\<lambda>k. if ?nd k then entryMessages env pm org k else []) (k # ks))"
        using True by (simp add: pm1_def)
      show ?thesis
        unfolding nd1 em orgs evs by (simp add: pm1_def)
    qed
    finally show ?thesis .
  qed
qed

lemma pruneMessages_eq:
  assumes "distinct (map fst orgMap)" and "map_of (OrgPolicies pm) org = Some orgMap"
  shows "concat (map (\<lambda>k. if nd k then entryMessages env pm org k else []) (map fst orgMap)) =
         deletedMessages env org (filter (\<lambda>e. nd (fst e)) orgMap)"
proof -
  have "map (\<lambda>k. if nd k then entryMessages env pm org k else []) (map fst orgMap) =
        map (\<lambda>e. if nd (fst e) then deletedMessage env org (snd e) else []) orgMap"
    unfolding map_map
  proof (intro map_cong refl)
    fix e assume "e \<in> set orgMap"
    then have "(fst e, snd e) \<in> set orgMap" by simp
    with assms(1) have "map_of orgMap (fst e) = Some (snd e)"
      by (rule map_of_is_SomeI)
    then show "((\<lambda>k. if nd k then entryMessages env pm org k else []) \<circ> fst) e =
               (if nd (fst e) then deletedMessage env org (snd e) else [])"
      using assms(2) by (simp add: entryMessages_def)
  qed
  also have "concat \<dots> = deletedMessages env org (filter (\<lambda>e. nd (fst e)) orgMap)"
    unfolding deletedMessages_def by (induction orgMap) auto
  finally show ?thesis .
qed

subsection \<open>The second loop of UpdatePolicies\<close>

lemma existing_entry_eq:
  "(if hasBusinessPolicy pm org name then getEntry pm org name else None) = getEntry pm org name"
  by (simp add: hasBusinessPolicy_def getEntry_def hasOrg_def split: option.splits)

lemma serveBusinessPolicy_cong:
  "ServedPolicies pm' = ServedPolicies pm \<Longrightarrow> serveBusinessPolicy pm' = serveBusinessPolicy pm"
  by (simp add: serveBusinessPolicy_def fun_eq_iff)

lemma getEntry_setEntry:
  "getEntry (setEntry org name pe pm) org' name' =
     (if org' = org \<and> name' = name \<and> hasOrg pm org then Some pe else getEntry pm org' name')"
  by (auto simp: getEntry_def setEntry_def hasOrg_def map_of_map_entry update_conv'
      split: option.splits)

lemma UpdatePolicies_one_unchanged:
  assumes "serveBusinessPolicy pm org (GetId env polId)"
    and "getEntry pm org (GetId env polId) = Some pe"
    and "hashPolicy env (GetBusinessPolicy env exPol) = Inr (Hash pe)"
  shows "UpdatePolicies_one env now org polId exPol pm = (None, pm)"
  using assms by (simp add: UpdatePolicies_one_def existing_entry_eq)

lemma UpdatePolicies_one_changed:
  assumes "serveBusinessPolicy pm org (GetId env polId)"
    and "getEntry pm org (GetId env polId) = Some pe"
    and "hashPolicy env (GetBusinessPolicy env exPol) = Inr newHash"
    and "newHash \<noteq> Hash pe"
    and "Validate env (GetBusinessPolicy env exPol)"
    and "GenPolicyFromBusinessPolicy env (GetBusinessPolicy env exPol) polId = Some newPol"
    and "MarshalPolicy env newPol = Some policyString"
  shows "UpdatePolicies_one env now org polId exPol pm =
           (None, (setEntry org (GetId env polId)
                     (pe\<lparr>Hash := newHash, Updated := now polId, ServicePolicies := [],
                         Policy := newPol\<rparr>) pm)
                  \<lparr>eventChannel := eventChannel pm @
                     [PolicyChangedMessage [] (HeaderName env newPol) org policyString]\<rparr>)"
  using assms
  by (simp add: UpdatePolicies_one_def existing_entry_eq UpdateEntry_def Let_def setEntry_def)

lemma UpdatePolicies_one_invalid:
  assumes "serveBusinessPolicy pm org (GetId env polId)"
    and "hashPolicy env (GetBusinessPolicy env exPol) = Inr newHash"
    and "\<forall>pe. getEntry pm org (GetId env polId) = Some pe \<longrightarrow> Hash pe \<noteq> newHash"
    and "\<not> Validate env (GetBusinessPolicy env exPol) \<or>
         GenPolicyFromBusinessPolicy env (GetBusinessPolicy env exPol) polId = None"
  shows "\<exists>err. UpdatePolicies_one env now org polId exPol pm =
           (Some err,
            case getEntry pm org (GetId env polId) of
              None \<Rightarrow> pm
            | Some pe \<Rightarrow> setEntry org (GetId env polId)
                 (pe\<lparr>Hash := newHash, Updated := now polId, ServicePolicies := []\<rparr>) pm)"
proof -
  let ?pol = "GetBusinessPolicy env exPol"
  have new: "\<exists>err. NewBusinessPolicyEntry env (now polId) ?pol polId = Inl err"
  proof (cases "Validate env ?pol")
    case True
    then have "GenPolicyFromBusinessPolicy env ?pol polId = None" using assms(4) by simp
    then show ?thesis using assms(2) True by (simp add: NewBusinessPolicyEntry_def)
  next
    case False
    then show ?thesis using assms(2) by (simp add: NewBusinessPolicyEntry_def)
  qed
  have upd: "\<exists>err. UpdateEntry env (now polId) pe ?pol polId newHash =
      (pe\<lparr>Hash := newHash, Updated := now polId, ServicePolicies := []\<rparr>, Inl err)" for pe
  proof (cases "Validate env ?pol")
    case True
    then have "GenPolicyFromBusinessPolicy env ?pol polId = None" using assms(4) by simp
    then show ?thesis using True by (simp add: UpdateEntry_def)
  next
    case False
    then show ?thesis by (simp add: UpdateEntry_def)
  qed
  show ?thesis
  proof (cases "getEntry pm org (GetId env polId)")
    case None
    from new obtain err where "NewBusinessPolicyEntry env (now polId) ?pol polId = Inl err" ..
    then show ?thesis using None assms(1)
      by (simp add: UpdatePolicies_one_def existing_entry_eq)
  next
    case (Some pe)
    then have ne: "Hash pe \<noteq> newHash" using assms(3) by simp
    from upd[of pe] obtain err where "UpdateEntry env (now polId) pe ?pol polId newHash =
      (pe\<lparr>Hash := newHash, Updated := now polId, ServicePolicies := []\<rparr>, Inl err)" ..
    then show ?thesis using Some ne assms(1,2)
      by (simp add: UpdatePolicies_one_def existing_entry_eq)
  qed
qed

lemma UpdatePolicies_add_append:
  "UpdatePolicies_add env now org (xs @ ys) pm =
     (case UpdatePolicies_add env now org xs pm of
        (Some err, pm') \<Rightarrow> (Some err, pm')
      | (None, pm') \<Rightarrow> UpdatePolicies_add env now org ys pm')"
  by (induction xs arbitrary: pm) (auto split: prod.splits option.splits)

lemma UpdatePolicies_prune_served:
  "UpdatePolicies_prune env org defs ks pm = (r, pm0) \<Longrightarrow> ServedPolicies pm0 = ServedPolicies pm"
  using UpdatePolicies_prune_frame[of env org defs ks pm] by auto

lemma UpdatePolicies_add_served:
  "UpdatePolicies_add env now org defs pm = (r, pm1) \<Longrightarrow> ServedPolicies pm1 = ServedPolicies pm"
  using UpdatePolicies_add_frame[of env now org defs pm] by auto

lemma need_delete_single:
  assumes "serveBusinessPolicy pm org (GetId env polId)"
  shows "\<not> need_delete env pm org [(polId, exPol)] (GetId env polId)"
    and "k \<noteq> GetId env polId \<Longrightarrow> need_delete env pm org [(polId, exPol)] k"
  using assms by (auto simp: need_delete_def)

lemma map_entry_cong_value:
  "map_of al k = Some v \<Longrightarrow> f v = g v \<Longrightarrow> AList.map_entry k f al = AList.map_entry k g al"
  by (induction al) (auto split: if_splits)

lemma UpdatePolicies_single_prune:
  assumes "map_of (OrgPolicies pm) org = Some orgMap"
    and "distinct (map fst orgMap)"
    and "serveBusinessPolicy pm org (GetId env polId)"
  shows "UpdatePolicies_prune env org [(polId, exPol)] (map fst orgMap) pm =
     (None, pm\<lparr>eventChannel := eventChannel pm @
                  deletedMessages env org (filter (\<lambda>e. fst e \<noteq> GetId env polId) orgMap),
               OrgPolicies := AList.map_entry org (filter (\<lambda>e. fst e = GetId env polId))
                  (OrgPolicies pm)\<rparr>)"
proof -
  let ?nd = "need_delete env pm org [(polId, exPol)]"
  have nd: "?nd k \<longleftrightarrow> k \<noteq> GetId env polId" for k
    using need_delete_single[OF assms(3)] by blast
  have ev: "concat (map (\<lambda>k. if ?nd k then entryMessages env pm org k else []) (map fst orgMap)) =
         deletedMessages env org (filter (\<lambda>e. fst e \<noteq> GetId env polId) orgMap)"
    unfolding pruneMessages_eq[OF assms(2,1)] by (simp add: nd)
  have "filter (\<lambda>e. \<not> (fst e \<in> set (map fst orgMap) \<and> ?nd (fst e))) orgMap =
        filter (\<lambda>e. fst e = GetId env polId) orgMap"
    by (intro filter_cong refl) (simp add: nd)
  with assms(1) have orgs: "AList.map_entry org
          (filter (\<lambda>e. \<not> (fst e \<in> set (map fst orgMap) \<and> ?nd (fst e)))) (OrgPolicies pm) =
        AList.map_entry org (filter (\<lambda>e. fst e = GetId env polId)) (OrgPolicies pm)"
    by (rule map_entry_cong_value)
  show ?thesis
    unfolding UpdatePolicies_prune_eq[OF assms(2)] ev orgs by (rule refl)
qed

lemmas eval_ex =
  UpdatePolicies_def UpdatePolicies_one_def need_delete_def deleteBusinessPolicy_def
  serveBusinessPolicy_def servesPolicy_def hasBusinessPolicy_def hasOrg_def getEntry_def
  setEntry_def hashPolicy_def UpdateEntry_def NewBusinessPolicyEntry_def sendPolicyDeleted_def
  env_ex_def GetId_ex_def now_ex_def pm_ex_def pm_served_ex_def served_ex_def entry_ex_def
  emitted_def Let_def


subsection \<open>A definition that fails validation\<close>

text \<open>
  C5. Take a call of \<open>UpdatePolicies\<close> on a tracked org in which the definitions walked
  before \<open>polId\<close> were processed without error, leaving the state \<open>pm1\<close>, and in which
  the definition of \<open>polId\<close> is validated (the policy is served, its hash is computed, and
  the cache holds no entry for it or one with another hash) and fails validation or
  conversion. The call returns an error, and the state it leaves is \<open>pm1\<close>: every deletion,
  insertion and replacement made before stays. Only the entry of the failing definition
  itself, when there is one, has its hash, time and service policies overwritten.
\<close>

theorem UpdatePolicies_invalid_definition:
  assumes "map_of (OrgPolicies pm) org = Some orgMap"
    and "UpdatePolicies_prune env org (before @ (polId, exPol) # after) (map fst orgMap) pm
           = (None, pm0)"
    and "UpdatePolicies_add env now org before pm0 = (None, pm1)"
    and "serveBusinessPolicy pm org (GetId env polId)"
    and "hashPolicy env (GetBusinessPolicy env exPol) = Inr newHash"
    and "\<forall>pe. getEntry pm1 org (GetId env polId) = Some pe \<longrightarrow> Hash pe \<noteq> newHash"
    and "\<not> Validate env (GetBusinessPolicy env exPol) \<or>
         GenPolicyFromBusinessPolicy env (GetBusinessPolicy env exPol) polId = None"
  shows "\<exists>err. UpdatePolicies env now org (before @ (polId, exPol) # after) pm =
           (Some err,
            case getEntry pm1 org (GetId env polId) of
              None \<Rightarrow> pm1
            | Some pe \<Rightarrow> setEntry org (GetId env polId)
                 (pe\<lparr>Hash := newHash, Updated := now polId, ServicePolicies := []\<rparr>) pm1)"
proof -
  let ?defs = "before @ (polId, exPol) # after"
  have sv: "serveBusinessPolicy pm1 org (GetId env polId)"
    using assms(4) UpdatePolicies_prune_served[OF assms(2)] UpdatePolicies_add_served[OF assms(3)]
      serveBusinessPolicy_cong[of pm1 pm] by simp
  from UpdatePolicies_one_invalid[OF sv assms(5,6,7), of now] obtain err where
    one: "UpdatePolicies_one env now org polId exPol pm1 =
           (Some err,
            case getEntry pm1 org (GetId env polId) of
              None \<Rightarrow> pm1
            | Some pe \<Rightarrow> setEntry org (GetId env polId)
                 (pe\<lparr>Hash := newHash, Updated := now polId, ServicePolicies := []\<rparr>) pm1)"
    by blast
  have "UpdatePolicies env now org ?defs pm = UpdatePolicies_add env now org ?defs pm0"
    using assms(1,2) by (simp add: UpdatePolicies_def hasOrg_def)
  also have "\<dots> = UpdatePolicies_add env now org ((polId, exPol) # after) pm1"
    using assms(3) by (simp add: UpdatePolicies_add_append)
  also have "\<dots> = (Some err,
            case getEntry pm1 org (GetId env polId) of
              None \<Rightarrow> pm1
            | Some pe \<Rightarrow> setEntry org (GetId env polId)
                 (pe\<lparr>Hash := newHash, Updated := now polId, ServicePolicies := []\<rparr>) pm1)"
    using one by simp
  finally show ?thesis by blast
qed

theorem UpdatePolicies_invalid_definition_witness:
  "map_of (OrgPolicies pm_served_ex) ''orgB'' = Some [] \<and>
   UpdatePolicies_add env_ex now_ex ''orgB'' [(''orgB/polB'', [3])] pm_served_ex = (None, pm_polB_ex) \<and>
   serveBusinessPolicy pm_served_ex ''orgB'' (GetId env_ex ''orgB/polC'') \<and>
   hashPolicy env_ex (GetBusinessPolicy env_ex [0, 9]) = Inr [0, 9] \<and>
   getEntry pm_polB_ex ''orgB'' (GetId env_ex ''orgB/polC'') = None \<and>
   \<not> Validate env_ex (GetBusinessPolicy env_ex [0, 9]) \<and>
   UpdatePolicies env_ex now_ex ''orgB''
       ([(''orgB/polB'', [3])] @ (''orgB/polC'', [0, 9]) # [(''orgB/polD'', [4])]) pm_served_ex =
     (Some (NewEntryError ValidateError), pm_polB_ex) \<and>
   getEntry pm_polB_ex ''orgB'' ''polB'' =
     Some \<lparr>Policy = ''polB'', Updated = 1600000000, Hash = [3], ServicePolicies = []\<rparr> \<and>
   getEntry pm_served_ex ''orgB'' ''polB'' = None"
proof -
  let ?defs = "[(''orgB/polB'', [3])] @ (''orgB/polC'', [0, 9]) # [(''orgB/polD'', [4])]"
  have m: "map_of (OrgPolicies pm_served_ex) ''orgB'' = Some []"
    by (simp add: pm_served_ex_def)
  have p: "UpdatePolicies_prune env_ex ''orgB'' ?defs (map fst []) pm_served_ex = (None, pm_served_ex)"
    by simp
  have a: "UpdatePolicies_add env_ex now_ex ''orgB'' [(''orgB/polB'', [3])] pm_served_ex = (None, pm_polB_ex)"
    by (simp add: eval_ex pm_polB_ex_def)
  have s: "serveBusinessPolicy pm_served_ex ''orgB'' (GetId env_ex ''orgB/polC'')"
    by (simp add: eval_ex)
  have h: "hashPolicy env_ex (GetBusinessPolicy env_ex [0, 9]) = Inr [0, 9]"
    by (simp add: eval_ex)
  have e: "getEntry pm_polB_ex ''orgB'' (GetId env_ex ''orgB/polC'') = None"
    by (simp add: eval_ex pm_polB_ex_def)
  then have n: "\<forall>pe. getEntry pm_polB_ex ''orgB'' (GetId env_ex ''orgB/polC'') = Some pe \<longrightarrow> Hash pe \<noteq> [0, 9]"
    by simp
  have v: "\<not> Validate env_ex (GetBusinessPolicy env_ex [0, 9])"
    by (simp add: eval_ex)
  then have v': "\<not> Validate env_ex (GetBusinessPolicy env_ex [0, 9]) \<or>
         GenPolicyFromBusinessPolicy env_ex (GetBusinessPolicy env_ex [0, 9]) ''orgB/polC'' = None"
    by simp
  from UpdatePolicies_invalid_definition [OF m p a s h n v'] obtain err where
    "UpdatePolicies env_ex now_ex ''orgB'' ?defs pm_served_ex = (Some err, pm_polB_ex)"
    by (auto simp: e)
  moreover have "fst (UpdatePolicies env_ex now_ex ''orgB'' ?defs pm_served_ex) =
      Some (NewEntryError ValidateError)"
    by (simp add: eval_ex)
  ultimately have u: "UpdatePolicies env_ex now_ex ''orgB'' ?defs pm_served_ex =
      (Some (NewEntryError ValidateError), pm_polB_ex)"
    by simp
  have g1: "getEntry pm_polB_ex ''orgB'' ''polB'' =
     Some \<lparr>Policy = ''polB'', Updated = 1600000000, Hash = [3], ServicePolicies = []\<rparr>"
    and g2: "getEntry pm_served_ex ''orgB'' ''polB'' = None"
    by (simp_all add: getEntry_def pm_polB_ex_def pm_served_ex_def)
  from m a s h e v u g1 g2 show ?thesis by blast
qed

subsection \<open>Ingesting a cached policy again\<close>

lemma getEntry_Some_hasOrg: "getEntry pm org name = Some pe \<Longrightarrow> hasOrg pm org"
  by (simp add: getEntry_def hasOrg_def split: option.splits)

lemma need_delete_loop_iff: "need_delete_loop env ids name \<longleftrightarrow> name \<notin> GetId env ` set ids"
  by (induction ids) auto

lemma getEntry_cong: "OrgPolicies pm' = OrgPolicies pm \<Longrightarrow> getEntry pm' = getEntry pm"
  by (simp add: getEntry_def fun_eq_iff)

lemma UpdatePolicies_prune_keeps:
  assumes "map_of (OrgPolicies pm) org = Some orgMap"
    and "distinct (map fst orgMap)"
    and "serveBusinessPolicy pm org name"
    and "name \<in> GetId env ` fst ` set defs"
    and "UpdatePolicies_prune env org defs (map fst orgMap) pm = (r, pm0)"
  shows "getEntry pm0 org name = getEntry pm org name"
proof -
  let ?P = "\<lambda>k. \<not> (k \<in> set (map fst orgMap) \<and> need_delete env pm org defs k)"
  have nd: "\<not> need_delete env pm org defs name"
    using assms(3,4) by (simp add: need_delete_def need_delete_loop_iff image_image)
  have "OrgPolicies pm0 = AList.map_entry org (filter (\<lambda>e. ?P (fst e))) (OrgPolicies pm)"
    using assms(5) unfolding UpdatePolicies_prune_eq[OF assms(2)] by auto
  then have "map_of (OrgPolicies pm0) org = Some (filter (\<lambda>e. ?P (fst e)) orgMap)"
    using assms(1) by (simp add: map_of_map_entry)
  moreover have "map_of (filter (\<lambda>e. ?P (fst e)) orgMap) name = map_of orgMap name"
  proof -
    have "map_of (filter (\<lambda>e. ?P (fst e)) orgMap) name =
            (if ?P name then map_of orgMap name else None)"
      by (rule map_of_filter_fst[of ?P])
    then show ?thesis using nd by simp
  qed
  ultimately show ?thesis using assms(1) by (simp add: getEntry_def)
qed

lemma UpdatePolicies_one_orgs:
  "OrgPolicies (snd (UpdatePolicies_one env now org polId exPol pm)) = OrgPolicies pm \<or>
   (\<exists>pe. OrgPolicies (snd (UpdatePolicies_one env now org polId exPol pm)) =
          OrgPolicies (setEntry org (GetId env polId) pe pm))"
  unfolding UpdatePolicies_one_def Let_def
  by (auto split: option.splits sum.splits prod.splits simp: setEntry_def)

lemma UpdatePolicies_one_other:
  assumes "GetId env polId \<noteq> name"
  shows "getEntry (snd (UpdatePolicies_one env now org polId exPol pm)) org' name =
         getEntry pm org' name"
proof -
  let ?pm' = "snd (UpdatePolicies_one env now org polId exPol pm)"
  from UpdatePolicies_one_orgs[of env now org polId exPol pm]
  consider "OrgPolicies ?pm' = OrgPolicies pm"
    | pe where "OrgPolicies ?pm' = OrgPolicies (setEntry org (GetId env polId) pe pm)"
    by auto
  then show ?thesis
  proof cases
    case 1
    then have "getEntry ?pm' = getEntry pm" by (rule getEntry_cong)
    then show ?thesis by simp
  next
    case 2
    then have "getEntry ?pm' = getEntry (setEntry org (GetId env polId) pe pm)"
      by (rule getEntry_cong)
    then show ?thesis using assms by (simp add: getEntry_setEntry)
  qed
qed

lemma UpdatePolicies_add_other:
  assumes "\<forall>d \<in> set defs. GetId env (fst d) \<noteq> name"
  shows "getEntry (snd (UpdatePolicies_add env now org defs pm)) org' name = getEntry pm org' name"
  using assms
proof (induction defs arbitrary: pm)
  case Nil
  then show ?case by simp
next
  case (Cons d defs)
  obtain r pm1 where one: "UpdatePolicies_one env now org (fst d) (snd d) pm = (r, pm1)"
    by (cases "UpdatePolicies_one env now org (fst d) (snd d) pm")
  have "GetId env (fst d) \<noteq> name" using Cons.prems by simp
  from UpdatePolicies_one_other[OF this, of now org "snd d" pm org'] one
  have e1: "getEntry pm1 org' name = getEntry pm org' name" by simp
  show ?case
  proof (cases r)
    case None
    have "getEntry (snd (UpdatePolicies_add env now org defs pm1)) org' name = getEntry pm1 org' name"
    proof (rule Cons.IH)
      show "\<forall>d \<in> set defs. GetId env (fst d) \<noteq> name" using Cons.prems by simp
    qed
    then show ?thesis using one None e1 by simp
  next
    case (Some err)
    then show ?thesis using one e1 by simp
  qed
qed

lemma UpdatePolicies_prune_events:
  "UpdatePolicies_prune env org defs ks pm = (r, pm0) \<Longrightarrow> \<exists>ev. eventChannel pm0 = eventChannel pm @ ev"
  using UpdatePolicies_prune_frame[of env org defs ks pm] by auto

lemma UpdatePolicies_one_events:
  "UpdatePolicies_one env now org polId exPol pm = (r, pm') \<Longrightarrow> \<exists>ev. eventChannel pm' = eventChannel pm @ ev"
  using UpdatePolicies_one_frame[of env now org polId exPol pm] by auto

lemma UpdatePolicies_add_events:
  "UpdatePolicies_add env now org defs pm = (r, pm') \<Longrightarrow> \<exists>ev. eventChannel pm' = eventChannel pm @ ev"
  using UpdatePolicies_add_frame[of env now org defs pm] by auto

lemma UpdatePolicies_prune_emitted:
  assumes "map_of (OrgPolicies pm) org = Some orgMap"
    and "distinct (map fst orgMap)"
    and "UpdatePolicies_prune env org defs (map fst orgMap) pm = (r, pm0)"
  shows "emitted pm pm0 =
           deletedMessages env org (filter (\<lambda>e. need_delete env pm org defs (fst e)) orgMap)"
proof -
  have "eventChannel pm0 = eventChannel pm @
          concat (map (\<lambda>k. if need_delete env pm org defs k
                             then entryMessages env pm org k else []) (map fst orgMap))"
    using assms(3) unfolding UpdatePolicies_prune_eq[OF assms(2)] by auto
  then show ?thesis
    unfolding pruneMessages_eq[OF assms(2,1)] by (rule emitted_append)
qed

text \<open>
  A call with one definition, for a policy that is cached and served: the first loop deletes
  every other policy cached for the org, and the second handles the definition.
\<close>

lemma UpdatePolicies_single_definition:
  assumes "map_of (OrgPolicies pm) org = Some orgMap"
    and "distinct (map fst orgMap)"
    and "map_of orgMap (GetId env polId) = Some (Some pe)"
    and "serveBusinessPolicy pm org (GetId env polId)"
    and "hashPolicy env (GetBusinessPolicy env exPol) = Inr newHash"
    and "UpdatePolicies env now org [(polId, exPol)] pm = (r, pm')"
  shows "(newHash = Hash pe \<longrightarrow>
            r = None \<and>
            emitted pm pm' =
              deletedMessages env org (filter (\<lambda>e. fst e \<noteq> GetId env polId) orgMap) \<and>
            getEntry pm' org (GetId env polId) = Some pe) \<and>
         (newHash \<noteq> Hash pe \<longrightarrow> Validate env (GetBusinessPolicy env exPol) \<longrightarrow>
          GenPolicyFromBusinessPolicy env (GetBusinessPolicy env exPol) polId = Some newPol \<longrightarrow>
          MarshalPolicy env newPol = Some policyString \<longrightarrow>
            r = None \<and>
            emitted pm pm' =
              deletedMessages env org (filter (\<lambda>e. fst e \<noteq> GetId env polId) orgMap) @
              [PolicyChangedMessage [] (HeaderName env newPol) org policyString] \<and>
            getEntry pm' org (GetId env polId) =
              Some (pe\<lparr>Hash := newHash, Updated := now polId, ServicePolicies := [],
                      Policy := newPol\<rparr>))"
proof -
  let ?name = "GetId env polId"
  define pm0 where "pm0 = pm\<lparr>eventChannel := eventChannel pm @
                  deletedMessages env org (filter (\<lambda>e. fst e \<noteq> ?name) orgMap),
               OrgPolicies := AList.map_entry org (filter (\<lambda>e. fst e = ?name))
                  (OrgPolicies pm)\<rparr>"
  have call: "UpdatePolicies env now org [(polId, exPol)] pm =
      UpdatePolicies_add env now org [(polId, exPol)] pm0"
    using assms(1) UpdatePolicies_single_prune[OF assms(1,2,4), of exPol]
    by (simp add: UpdatePolicies_def hasOrg_def pm0_def)
  have sv0: "serveBusinessPolicy pm0 org ?name"
    using assms(4) serveBusinessPolicy_cong[of pm0 pm] by (simp add: pm0_def)
  have "map_of (filter (\<lambda>e. fst e = ?name) orgMap) ?name = Some (Some pe)"
    using assms(3) map_of_filter_fst[of "\<lambda>k. k = ?name" orgMap ?name] by simp
  then have e0: "getEntry pm0 org ?name = Some pe"
    using assms(1) by (simp add: getEntry_def pm0_def map_of_map_entry)
  have h0: "hasOrg pm0 org"
    using assms(1) by (simp add: hasOrg_def pm0_def map_of_map_entry)
  have ev0: "eventChannel pm0 = eventChannel pm @
                  deletedMessages env org (filter (\<lambda>e. fst e \<noteq> ?name) orgMap)"
    by (simp add: pm0_def)
  show ?thesis
  proof (intro conjI impI)
    assume same: "newHash = Hash pe"
    have "UpdatePolicies_one env now org polId exPol pm0 = (None, pm0)"
      using sv0 e0 assms(5) same by (intro UpdatePolicies_one_unchanged) simp_all
    then have res: "r = None" "pm' = pm0" using call assms(6) by simp_all
    show "r = None" by (rule res)
    show "emitted pm pm' = deletedMessages env org (filter (\<lambda>e. fst e \<noteq> ?name) orgMap)"
      unfolding res by (rule emitted_append[OF ev0])
    show "getEntry pm' org ?name = Some pe" unfolding res by (rule e0)
  next
    assume ne: "newHash \<noteq> Hash pe"
      and v: "Validate env (GetBusinessPolicy env exPol)"
      and g: "GenPolicyFromBusinessPolicy env (GetBusinessPolicy env exPol) polId = Some newPol"
      and m: "MarshalPolicy env newPol = Some policyString"
    let ?pe' = "pe\<lparr>Hash := newHash, Updated := now polId, ServicePolicies := [],
                      Policy := newPol\<rparr>"
    let ?pm' = "(setEntry org ?name ?pe' pm0)
                  \<lparr>eventChannel := eventChannel pm0 @
                     [PolicyChangedMessage [] (HeaderName env newPol) org policyString]\<rparr>"
    have "UpdatePolicies_one env now org polId exPol pm0 = (None, ?pm')"
      by (rule UpdatePolicies_one_changed[OF sv0 e0 assms(5) ne v g m])
    then have res: "r = None" "pm' = ?pm'" using call assms(6) by simp_all
    show "r = None" by (rule res)
    have "eventChannel pm' = eventChannel pm @
           (deletedMessages env org (filter (\<lambda>e. fst e \<noteq> ?name) orgMap) @
              [PolicyChangedMessage [] (HeaderName env newPol) org policyString])"
      unfolding res by (simp add: ev0)
    then show "emitted pm pm' =
              deletedMessages env org (filter (\<lambda>e. fst e \<noteq> ?name) orgMap) @
              [PolicyChangedMessage [] (HeaderName env newPol) org policyString]"
      by (rule emitted_append)
    have "getEntry pm' org ?name = getEntry (setEntry org ?name ?pe' pm0) org ?name"
      unfolding res by (simp add: getEntry_def)
    then show "getEntry pm' org ?name = Some ?pe'"
      using h0 by (simp add: getEntry_setEntry)
  qed
qed

text \<open>
  C1, as amended. Let \<open>org\<close> be tracked, let its policy map cache the entry \<open>pe\<close> under the
  name \<open>polId\<close> resolves to, let that policy be served, let \<open>polId\<close> be the only definition of
  the call that resolves to that name, and let its definition hash to \<open>newHash\<close>. Let the
  call reach that definition: the first loop ends in \<open>pm0\<close>, the definitions before it are
  handled without an error and lead to \<open>pm1\<close>, and handling the definition leads to \<open>pm2\<close>.
  The messages of the call are those of the first loop, which are the deleted messages of
  the cached policies that are no longer served or no longer defined, then those of the
  definitions before, of the definition itself and of the definitions after it, and
  \<^item> when \<open>newHash\<close> is the stored hash (unchanged content), handling the definition is
    no error and sends nothing, and at the end of the call the entry, and so its hash, is
    as it was;
  \<^item> when \<open>newHash\<close> differs (changed content) and the definition validates, converts to
    \<open>newPol\<close> and \<open>newPol\<close> serializes to \<open>policyString\<close>, handling the definition is no
    error and sends exactly one \<open>PolicyChangedMessage\<close>, carrying \<open>policyString\<close>, and at
    the end of the call the entry holds \<open>newHash\<close>, \<open>newPol\<close> and no service policies.
\<close>

theorem UpdatePolicies_reingest:
  assumes tracked: "map_of (OrgPolicies pm) org = Some orgMap"
    and dist: "distinct (map fst orgMap)"
    and cached: "map_of orgMap (GetId env polId) = Some (Some pe)"
    and served: "serveBusinessPolicy pm org (GetId env polId)"
    and only: "\<forall>d \<in> set (before @ after). GetId env (fst d) \<noteq> GetId env polId"
    and hash: "hashPolicy env (GetBusinessPolicy env exPol) = Inr newHash"
    and prune: "UpdatePolicies_prune env org (before @ (polId, exPol) # after) (map fst orgMap) pm
                  = (None, pm0)"
    and before: "UpdatePolicies_add env now org before pm0 = (None, pm1)"
    and step: "UpdatePolicies_one env now org polId exPol pm1 = (r1, pm2)"
    and call: "UpdatePolicies env now org (before @ (polId, exPol) # after) pm = (r, pm')"
  shows "emitted pm pm' = emitted pm pm0 @ emitted pm0 pm1 @ emitted pm1 pm2 @ emitted pm2 pm' \<and>
         emitted pm pm0 =
           deletedMessages env org
             (filter (\<lambda>e. need_delete env pm org (before @ (polId, exPol) # after) (fst e)) orgMap) \<and>
         (newHash = Hash pe \<longrightarrow>
            r1 = None \<and> emitted pm1 pm2 = [] \<and>
            getEntry pm' org (GetId env polId) = Some pe) \<and>
         (newHash \<noteq> Hash pe \<longrightarrow> Validate env (GetBusinessPolicy env exPol) \<longrightarrow>
          GenPolicyFromBusinessPolicy env (GetBusinessPolicy env exPol) polId = Some newPol \<longrightarrow>
          MarshalPolicy env newPol = Some policyString \<longrightarrow>
            r1 = None \<and>
            emitted pm1 pm2 = [PolicyChangedMessage [] (HeaderName env newPol) org policyString] \<and>
            getEntry pm' org (GetId env polId) =
              Some (pe\<lparr>Hash := newHash, Updated := now polId, ServicePolicies := [],
                      Policy := newPol\<rparr>))"
proof -
  let ?name = "GetId env polId"
  let ?defs = "before @ (polId, exPol) # after"
  have in_defs: "?name \<in> GetId env ` fst ` set ?defs" by (simp add: image_iff)
  have e0: "getEntry pm0 org ?name = Some pe"
    using UpdatePolicies_prune_keeps[OF tracked dist served in_defs prune] tracked cached
    by (simp add: getEntry_def)
  have "getEntry (snd (UpdatePolicies_add env now org before pm0)) org ?name = getEntry pm0 org ?name"
    using only by (intro UpdatePolicies_add_other) simp
  then have e1: "getEntry pm1 org ?name = Some pe"
    using before e0 by simp
  have sv1: "serveBusinessPolicy pm1 org ?name"
    using served UpdatePolicies_prune_served[OF prune] UpdatePolicies_add_served[OF before]
      serveBusinessPolicy_cong[of pm1 pm] by simp
  have h1: "hasOrg pm1 org" using e1 by (rule getEntry_Some_hasOrg)
  \<comment> \<open>the rest of the call\<close>
  have c0: "UpdatePolicies env now org ?defs pm = UpdatePolicies_add env now org ?defs pm0"
    using tracked prune by (simp add: UpdatePolicies_def hasOrg_def)
  have c1: "UpdatePolicies_add env now org ?defs pm0 =
            UpdatePolicies_add env now org ((polId, exPol) # after) pm1"
    using before by (simp add: UpdatePolicies_add_append)
  have rest: "r1 = None \<Longrightarrow> (r, pm') = UpdatePolicies_add env now org after pm2"
    using call c0 c1 step by simp
  have later: "getEntry pm' org ?name = getEntry pm2 org ?name" if "r1 = None"
  proof -
    have "getEntry (snd (UpdatePolicies_add env now org after pm2)) org ?name = getEntry pm2 org ?name"
      using only by (intro UpdatePolicies_add_other) simp
    then show ?thesis using rest[OF that, symmetric] by simp
  qed
  have stop: "pm' = pm2" if "r1 \<noteq> None"
    using that call c0 c1 step by (cases r1) simp_all
  \<comment> \<open>the messages\<close>
  obtain x0 where x0: "eventChannel pm0 = eventChannel pm @ x0"
    using UpdatePolicies_prune_events[OF prune] by blast
  obtain x1 where x1: "eventChannel pm1 = eventChannel pm0 @ x1"
    using UpdatePolicies_add_events[OF before] by blast
  obtain x2 where x2: "eventChannel pm2 = eventChannel pm1 @ x2"
    using UpdatePolicies_one_events[OF step] by blast
  obtain x3 where x3: "eventChannel pm' = eventChannel pm2 @ x3"
  proof (cases r1)
    case None
    from rest[OF None, symmetric] UpdatePolicies_add_events obtain ev where
      "eventChannel pm' = eventChannel pm2 @ ev" by blast
    then show ?thesis by (rule that)
  next
    case (Some err)
    then have "pm' = pm2" using stop by simp
    then have "eventChannel pm' = eventChannel pm2 @ []" by simp
    then show ?thesis by (rule that)
  qed
  have split: "emitted pm pm' = emitted pm pm0 @ emitted pm0 pm1 @ emitted pm1 pm2 @ emitted pm2 pm'"
    by (simp add: emitted_def x0 x1 x2 x3)
  have first: "emitted pm pm0 =
           deletedMessages env org (filter (\<lambda>e. need_delete env pm org ?defs (fst e)) orgMap)"
    using tracked dist prune by (rule UpdatePolicies_prune_emitted)
  have same: "r1 = None \<and> emitted pm1 pm2 = [] \<and> getEntry pm' org ?name = Some pe"
    if "newHash = Hash pe"
  proof -
    have "UpdatePolicies_one env now org polId exPol pm1 = (None, pm1)"
      using sv1 e1 hash that by (intro UpdatePolicies_one_unchanged) simp_all
    then have r: "r1 = None" and p: "pm2 = pm1" using step by simp_all
    show ?thesis using r later[OF r] e1 by (simp add: p emitted_def)
  qed
  have changed: "r1 = None \<and>
            emitted pm1 pm2 = [PolicyChangedMessage [] (HeaderName env newPol) org policyString] \<and>
            getEntry pm' org ?name =
              Some (pe\<lparr>Hash := newHash, Updated := now polId, ServicePolicies := [],
                      Policy := newPol\<rparr>)"
    if ne: "newHash \<noteq> Hash pe" and v: "Validate env (GetBusinessPolicy env exPol)"
      and g: "GenPolicyFromBusinessPolicy env (GetBusinessPolicy env exPol) polId = Some newPol"
      and m: "MarshalPolicy env newPol = Some policyString"
    for newPol policyString
  proof -
    let ?pe' = "pe\<lparr>Hash := newHash, Updated := now polId, ServicePolicies := [],
                      Policy := newPol\<rparr>"
    let ?pm2 = "(setEntry org ?name ?pe' pm1)
                  \<lparr>eventChannel := eventChannel pm1 @
                     [PolicyChangedMessage [] (HeaderName env newPol) org policyString]\<rparr>"
    have "UpdatePolicies_one env now org polId exPol pm1 = (None, ?pm2)"
      by (rule UpdatePolicies_one_changed[OF sv1 e1 hash ne v g m])
    then have r: "r1 = None" and p: "pm2 = ?pm2" using step by simp_all
    have ev: "emitted pm1 pm2 = [PolicyChangedMessage [] (HeaderName env newPol) org policyString]"
      unfolding p by (rule emitted_append) simp
    have "getEntry pm2 org ?name = getEntry (setEntry org ?name ?pe' pm1) org ?name"
      unfolding p by (simp add: getEntry_def)
    then have "getEntry pm2 org ?name = Some ?pe'"
      using h1 by (simp add: getEntry_setEntry)
    then show ?thesis using r ev later[OF r] by simp
  qed
  show ?thesis
    using split first same changed by blast
qed

theorem UpdatePolicies_reingest_witness:
  "UpdatePolicies env_ex now_ex ''orgB'' ([(''orgB/polD'', [6])] @ (''orgB/polC'', [4, 4]) # []) pm_ex =
     (None, pm_changed_ex) \<and>
   emitted pm_ex pm_changed_ex =
     [PolicyDeletedMessage [] ''polB'' ''orgB'' ''json polB'',
      PolicyChangedMessage [] ''polC'' ''orgB'' ''json polC''] \<and>
   emitted pm_polD_ex pm_changed_ex = [PolicyChangedMessage [] ''polC'' ''orgB'' ''json polC''] \<and>
   getEntry pm_ex ''orgB'' ''polC'' = Some (entry_ex ''polC'' [4]) \<and>
   getEntry pm_changed_ex ''orgB'' ''polC'' =
     Some \<lparr>Policy = ''polC'', Updated = 1600000000, Hash = [4, 4], ServicePolicies = []\<rparr> \<and>
   UpdatePolicies env_ex now_ex ''orgB'' ([(''orgB/polD'', [6])] @ (''orgB/polC'', [4]) # []) pm_ex =
     (None, pm_polD_ex) \<and>
   emitted pm_polD_ex pm_polD_ex = [] \<and>
   getEntry pm_polD_ex ''orgB'' ''polC'' = Some (entry_ex ''polC'' [4])"
proof -
  let ?orgMap = "[(''polB'', Some (entry_ex ''polB'' [3])), (''polC'', Some (entry_ex ''polC'' [4]))]"
  let ?before = "[(''orgB/polD'', [6 :: byte])]"
  have gid: "GetId env_ex ''orgB/polC'' = ''polC''"
    by (simp add: env_ex_def GetId_ex_def)
  have tracked: "map_of (OrgPolicies pm_ex) ''orgB'' = Some ?orgMap"
    by (simp add: pm_ex_def)
  have dist: "distinct (map fst ?orgMap)" by simp
  have cached: "map_of ?orgMap (GetId env_ex ''orgB/polC'') = Some (Some (entry_ex ''polC'' [4]))"
    by (simp add: gid)
  have served: "serveBusinessPolicy pm_ex ''orgB'' (GetId env_ex ''orgB/polC'')"
    by (simp add: eval_ex)
  have only: "\<forall>d \<in> set (?before @ []). GetId env_ex (fst d) \<noteq> GetId env_ex ''orgB/polC''"
    by (simp add: env_ex_def GetId_ex_def)
  have ha: "hashPolicy env_ex (GetBusinessPolicy env_ex [4, 4]) = Inr [4, 4]"
    and hb: "hashPolicy env_ex (GetBusinessPolicy env_ex [4]) = Inr [4]"
    by (simp_all add: hashPolicy_def env_ex_def)
  have pa: "UpdatePolicies_prune env_ex ''orgB'' (?before @ (''orgB/polC'', [4, 4]) # [])
              (map fst ?orgMap) pm_ex = (None, pm_pruned_ex)"
    and pb: "UpdatePolicies_prune env_ex ''orgB'' (?before @ (''orgB/polC'', [4]) # [])
              (map fst ?orgMap) pm_ex = (None, pm_pruned_ex)"
    by (simp_all add: eval_ex pm_pruned_ex_def)
  have bf: "UpdatePolicies_add env_ex now_ex ''orgB'' ?before pm_pruned_ex = (None, pm_polD_ex)"
    by (simp add: eval_ex pm_pruned_ex_def pm_polD_ex_def)
  have sa: "UpdatePolicies_one env_ex now_ex ''orgB'' ''orgB/polC'' [4, 4] pm_polD_ex =
              (None, pm_changed_ex)"
    and sb: "UpdatePolicies_one env_ex now_ex ''orgB'' ''orgB/polC'' [4] pm_polD_ex =
              (None, pm_polD_ex)"
    by (simp_all add: eval_ex pm_polD_ex_def pm_changed_ex_def)
  have ca: "UpdatePolicies env_ex now_ex ''orgB'' (?before @ (''orgB/polC'', [4, 4]) # []) pm_ex =
              (None, pm_changed_ex)"
    and cb: "UpdatePolicies env_ex now_ex ''orgB'' (?before @ (''orgB/polC'', [4]) # []) pm_ex =
              (None, pm_polD_ex)"
    by (simp_all add: eval_ex pm_polD_ex_def pm_changed_ex_def)
  have hp: "Hash (entry_ex ''polC'' [4]) = [4]" by (simp add: entry_ex_def)
  have v: "Validate env_ex (GetBusinessPolicy env_ex [4, 4])"
    and g: "GenPolicyFromBusinessPolicy env_ex (GetBusinessPolicy env_ex [4, 4]) ''orgB/polC'' =
              Some ''polC''"
    and m: "MarshalPolicy env_ex ''polC'' = Some ''json polC''"
    by (simp_all add: env_ex_def GetId_ex_def)
  from UpdatePolicies_reingest
         [OF tracked dist cached served only ha pa bf sa ca, of "''polC''" "''json polC''"] v g m hp
  have a: "emitted pm_polD_ex pm_changed_ex = [PolicyChangedMessage [] ''polC'' ''orgB'' ''json polC''] \<and>
     getEntry pm_changed_ex ''orgB'' ''polC'' =
       Some \<lparr>Policy = ''polC'', Updated = 1600000000, Hash = [4, 4], ServicePolicies = []\<rparr>"
    by (simp add: gid env_ex_def entry_ex_def now_ex_def)
  from UpdatePolicies_reingest [OF tracked dist cached served only hb pb bf sb cb] hp
  have b: "emitted pm_polD_ex pm_polD_ex = [] \<and>
     getEntry pm_polD_ex ''orgB'' ''polC'' = Some (entry_ex ''polC'' [4])"
    by (simp add: gid)
  have e: "emitted pm_ex pm_changed_ex =
     [PolicyDeletedMessage [] ''polB'' ''orgB'' ''json polB'',
      PolicyChangedMessage [] ''polC'' ''orgB'' ''json polC'']"
    by (simp add: emitted_def pm_ex_def pm_changed_ex_def)
  have ge: "getEntry pm_ex ''orgB'' ''polC'' = Some (entry_ex ''polC'' [4])"
    by (simp add: getEntry_def pm_ex_def)
  from ca cb a b e ge show ?thesis by simp
qed

text \<open>
  C1 as stated promises the changed message for every definition whose content changed.
  A changed definition that fails validation has its hash stored all the same, the call
  returns an error, and no message is sent.
\<close>

theorem UpdatePolicies_reingest_counterexample:
  "hashPolicy env_ex (GetBusinessPolicy env_ex [0, 7]) = Inr [0, 7] \<and>
   getEntry pm_ex ''orgA'' (GetId env_ex ''orgA/polA'') = Some (entry_ex ''polA'' [2, 1]) \<and>
   Hash (entry_ex ''polA'' [2, 1]) \<noteq> [0, 7] \<and>
   serveBusinessPolicy pm_ex ''orgA'' (GetId env_ex ''orgA/polA'') \<and>
   UpdatePolicies env_ex now_ex ''orgA'' [(''orgA/polA'', [0, 7])] pm_ex =
     (Some (UpdateEntryError ''orgA/polA'' ''orgA'' ValidateError),
      pm_ex\<lparr>OrgPolicies :=
        [(''orgA'', [(''polA'', Some \<lparr>Policy = ''polA'', Updated = 1600000000, Hash = [0, 7],
                                      ServicePolicies = []\<rparr>)]),
         (''orgB'', [(''polB'', Some (entry_ex ''polB'' [3])),
                     (''polC'', Some (entry_ex ''polC'' [4]))])]\<rparr>) \<and>
   emitted pm_ex (snd (UpdatePolicies env_ex now_ex ''orgA'' [(''orgA/polA'', [0, 7])] pm_ex)) = []"
  by (simp add: eval_ex)

subsection \<open>The map returned by GetAllBusinessPolicyEntriesForOrg\<close>

lemma map_of_map_snd:
  "map_of (map (\<lambda>entry. (fst entry, f (snd entry))) xs) k = map_option f (map_of xs k)"
  by (induction xs) auto

lemma map_of_deref:
  "map_of (OrgPolicies (deref rpm)) org = map_option (mapAt rpm) (map_of (orgRefs rpm) org)"
  by (simp add: deref_def map_of_map_snd)

lemma deleteBusinessPolicy_refs_eq:
  "GetAllBusinessPolicyEntriesForOrg rpm org = Some ref \<Longrightarrow>
   deleteBusinessPolicy_refs env org polName rpm =
     (None, rpm\<lparr>events := events rpm @ entryMessages env (deref rpm) org polName,
                mapAt := (mapAt rpm)(ref := AList.delete polName (mapAt rpm ref))\<rparr>)"
proof -
  assume g: "GetAllBusinessPolicyEntriesForOrg rpm org = Some ref"
  then have h: "hasOrg (deref rpm) org" and r: "map_of (orgRefs rpm) org = Some ref"
    by (auto simp: GetAllBusinessPolicyEntriesForOrg_def split: if_splits)
  show ?thesis
  proof (cases "map_of (mapAt rpm ref) polName")
    case None
    then have "AList.delete polName (mapAt rpm ref) = mapAt rpm ref"
      by (simp add: map_of_eq_None_iff)
    then show ?thesis using None h r
      by (simp add: deleteBusinessPolicy_refs_def entryMessages_def map_of_deref)
  next
    case (Some pe)
    have "(case pe of
             None \<Rightarrow> rpm
           | Some e \<Rightarrow>
               (case MarshalPolicy env (Policy e) of
                  None \<Rightarrow> rpm
                | Some policyString \<Rightarrow>
                    rpm\<lparr>events := events rpm @
                      [PolicyDeletedMessage [] (HeaderName env (Policy e)) org policyString]\<rparr>)) =
          rpm\<lparr>events := events rpm @ deletedMessage env org pe\<rparr>"
      by (simp add: deletedMessage_def split: option.splits)
    then show ?thesis using Some h r
      by (simp add: deleteBusinessPolicy_refs_def entryMessages_def map_of_deref Let_def)
  qed
qed

lemma deref_update_one:
  assumes "distinct (map snd xs)" and "map_of xs org = Some ref"
  shows "map (\<lambda>entry. (fst entry, (m(ref := f (m ref))) (snd entry))) xs =
         AList.map_entry org f (map (\<lambda>entry. (fst entry, m (snd entry))) xs)"
  using assms
proof (induction xs)
  case Nil
  then show ?case by simp
next
  case (Cons e xs)
  show ?case
  proof (cases "fst e = org")
    case True
    then have r: "snd e = ref" using Cons.prems(2) by simp
    have "map (\<lambda>entry. (fst entry, (m(ref := f (m ref))) (snd entry))) xs =
          map (\<lambda>entry. (fst entry, m (snd entry))) xs"
    proof (intro map_cong refl)
      fix x assume "x \<in> set xs"
      then have "snd x \<in> snd ` set xs" by (rule imageI)
      moreover have "ref \<notin> snd ` set xs" using Cons.prems(1) r by simp
      ultimately have "snd x \<noteq> ref" by metis
      then show "(fst x, (m(ref := f (m ref))) (snd x)) = (fst x, m (snd x))" by simp
    qed
    then show ?thesis using True r by simp
  next
    case False
    then have "map_of xs org = Some ref" using Cons.prems(2) by simp
    then have "ref \<in> snd ` set xs" by (auto dest: map_of_SomeD intro: rev_image_eqI)
    then have "snd e \<noteq> ref" using Cons.prems(1) by auto
    then show ?thesis using False Cons.IH Cons.prems \<open>map_of xs org = Some ref\<close> by simp
  qed
qed

lemma deleteBusinessPolicy_refs_refines:
  assumes "distinct (map snd (orgRefs rpm))"
  shows "deref (snd (deleteBusinessPolicy_refs env org polName rpm)) =
         snd (deleteBusinessPolicy env org polName (deref rpm))"
proof (cases "GetAllBusinessPolicyEntriesForOrg rpm org")
  case None
  then have "\<not> hasOrg (deref rpm) org"
    by (auto simp: GetAllBusinessPolicyEntriesForOrg_def hasOrg_def map_of_deref split: if_splits option.splits)
  then show ?thesis
    by (simp add: deleteBusinessPolicy_refs_def deleteBusinessPolicy_def)
next
  case (Some ref)
  then have r: "map_of (orgRefs rpm) org = Some ref"
    by (auto simp: GetAllBusinessPolicyEntriesForOrg_def split: if_splits)
  show ?thesis
    unfolding deleteBusinessPolicy_refs_eq[OF Some] deleteBusinessPolicy_eq
    by (simp add: deref_def deref_update_one[OF assms r, unfolded fun_upd_apply])
qed

text \<open>
  In every state the result of \<open>GetAllBusinessPolicyEntriesForOrg\<close> is \<open>nil\<close> for an org that
  is not tracked and otherwise the reference that the manager itself holds for the org, so
  a policy that the manager deletes afterwards is deleted from the map read through the
  result.
\<close>

lemma GetAllBusinessPolicyEntriesForOrg_shares_map:
  fixes rpm :: "'p PolicyManagerRefs"
  shows
  "(\<not> hasOrg (deref rpm) org \<longrightarrow> GetAllBusinessPolicyEntriesForOrg rpm org = None) \<and>
   (\<forall>ref. GetAllBusinessPolicyEntriesForOrg rpm org = Some ref \<longrightarrow>
      map_of (OrgPolicies (deref rpm)) org = Some (mapAt rpm ref) \<and>
      (\<forall>(env :: ('xp, 'bp, 'p) env) polName rpm'.
         snd (deleteBusinessPolicy_refs env org polName rpm) = rpm' \<longrightarrow>
           GetAllBusinessPolicyEntriesForOrg rpm' org = Some ref \<and>
           mapAt rpm' ref = AList.delete polName (mapAt rpm ref) \<and>
           map_of (OrgPolicies (deref rpm')) org = Some (mapAt rpm' ref)))"
proof (intro conjI allI impI)
  assume "\<not> hasOrg (deref rpm) org"
  then show "GetAllBusinessPolicyEntriesForOrg rpm org = None"
    by (simp add: GetAllBusinessPolicyEntriesForOrg_def)
next
  fix ref assume g: "GetAllBusinessPolicyEntriesForOrg rpm org = Some ref"
  then have r: "map_of (orgRefs rpm) org = Some ref"
    by (auto simp: GetAllBusinessPolicyEntriesForOrg_def split: if_splits)
  show m: "map_of (OrgPolicies (deref rpm)) org = Some (mapAt rpm ref)"
    by (simp add: map_of_deref r)
  fix env :: "('xp, 'bp, 'p) env" and polName rpm'
  assume d: "snd (deleteBusinessPolicy_refs env org polName rpm) = rpm'"
  have rpm': "rpm' = rpm\<lparr>events := events rpm @ entryMessages env (deref rpm) org polName,
                mapAt := (mapAt rpm)(ref := AList.delete polName (mapAt rpm ref))\<rparr>"
    using d deleteBusinessPolicy_refs_eq[OF g, of env polName] by simp
  have r': "map_of (orgRefs rpm') org = Some ref"
    by (simp add: rpm' r)
  then show m': "map_of (OrgPolicies (deref rpm')) org = Some (mapAt rpm' ref)"
    by (simp add: map_of_deref)
  then show "GetAllBusinessPolicyEntriesForOrg rpm' org = Some ref"
    using r' by (simp add: GetAllBusinessPolicyEntriesForOrg_def hasOrg_def)
  show "mapAt rpm' ref = AList.delete polName (mapAt rpm ref)"
    by (simp add: rpm')
qed

text \<open>
  C9. The claim asks for a snapshot copy of the org's policy map. The source takes
  \<open>polMapLock\<close> and returns \<open>pm.OrgPolicies[org]\<close>, the map object that the manager keeps
  and that the lock protects, so that the caller reads it outside the lock; the sibling
  queries \<open>GetAllPolicyOrgs\<close> and \<open>GetServedNodeOrgs\<close> fill a new slice under their lock, and
  the comments of \<open>setServedBusinessPolicies\<close>, which say that the input map is copied,
  take the assignment of a map for a copy. On \<open>rpm_ex\<close> the result for
  \<open>orgA\<close> is the reference \<open>10\<close> that the manager holds for \<open>orgA\<close>; the map read through it
  holds \<open>polA\<close> when it is returned, and it is empty once the manager has deleted \<open>polA\<close>,
  as \<open>UpdatePolicies\<close> does when it is called for \<open>orgA\<close> with a definition of \<open>polB\<close> alone.
  A snapshot would still hold \<open>polA\<close>. For \<open>orgC\<close>, which is not tracked, the result is \<open>nil\<close>,
  as the claim says.
\<close>

theorem GetAllBusinessPolicyEntriesForOrg_returns_internal_map:
  "GetAllBusinessPolicyEntriesForOrg rpm_ex ''orgA'' = Some 10 \<and>
   map_of (orgRefs rpm_ex) ''orgA'' = Some 10 \<and>
   mapAt rpm_ex 10 = [(''polA'', Some (entry_ex ''polA'' [2, 1]))] \<and>
   fst (deleteBusinessPolicy_refs env_ex ''orgA'' ''polA'' rpm_ex) = None \<and>
   mapAt (snd (deleteBusinessPolicy_refs env_ex ''orgA'' ''polA'' rpm_ex)) 10 = [] \<and>
   GetAllBusinessPolicyEntriesForOrg (snd (deleteBusinessPolicy_refs env_ex ''orgA'' ''polA'' rpm_ex))
     ''orgA'' = Some 10 \<and>
   deref (snd (deleteBusinessPolicy_refs env_ex ''orgA'' ''polA'' rpm_ex)) =
     snd (deleteBusinessPolicy env_ex ''orgA'' ''polA'' (deref rpm_ex)) \<and>
   UpdatePolicies env_ex now_ex ''orgA'' [(''orgA/polB'', [3])] (deref rpm_ex) =
     deleteBusinessPolicy env_ex ''orgA'' ''polA'' (deref rpm_ex) \<and>
   GetAllBusinessPolicyEntriesForOrg rpm_ex ''orgC'' = None"
proof -
  have "deref rpm_ex = pm_ex"
    by (simp add: deref_def rpm_ex_def pm_ex_def)
  then have "UpdatePolicies env_ex now_ex ''orgA'' [(''orgA/polB'', [3])] (deref rpm_ex) =
     deleteBusinessPolicy env_ex ''orgA'' ''polA'' (deref rpm_ex)"
    by (simp add: eval_ex)
  then show ?thesis
    by (simp add: GetAllBusinessPolicyEntriesForOrg_def deleteBusinessPolicy_refs_def rpm_ex_def
        deleteBusinessPolicy_def sendPolicyDeleted_def
        deref_def hasOrg_def env_ex_def entry_ex_def)
qed

subsection \<open>The stored hash and the definitions ingested\<close>








lemma getEntry_events [simp]:
  "getEntry (pm\<lparr>eventChannel := ev\<rparr>) org name = getEntry pm org name"
  by (simp add: getEntry_def)































text \<open>
  \<open>sha3.Sum256\<close> returns 32 bytes, and a digest of a fixed size cannot tell all contents
  apart.
\<close>

lemma sha3Sum256_collides:
  assumes "\<forall>ps. length (sha3Sum256 env ps) = 32"
  shows "\<exists>a b. a \<noteq> b \<and> sha3Sum256 env a = sha3Sum256 env b"
proof (rule ccontr)
  assume "\<not> (\<exists>a b. a \<noteq> b \<and> sha3Sum256 env a = sha3Sum256 env b)"
  then have i: "inj (sha3Sum256 env)" by (auto simp: inj_on_def)
  have "finite {xs :: byte list. set xs \<subseteq> UNIV \<and> length xs = 32}"
    by (rule finite_lists_length_eq) simp
  moreover have "range (sha3Sum256 env) \<subseteq> {xs. set xs \<subseteq> UNIV \<and> length xs = 32}"
    using assms by auto
  ultimately have "finite (range (sha3Sum256 env))" by (rule rev_finite_subset)
  then have "finite (UNIV :: byte list set)" using i by (rule finite_imageD)
  then show False by (simp add: infinite_UNIV_listI)
qed

lemma env_checksum_ex_size: "length (sha3Sum256 env_checksum_ex ps) = 32"
  by (simp add: env_checksum_ex_def)


end
